theory Spec2Isabelle
  imports Complex_Main "HOL-Library.Word" "HOL-Library.Log_Nat"
begin

section \<open>JavaScript numbers\<close>

text \<open>
  A JavaScript number is an IEEE-754 binary64 value: NaN, the two infinities, or a
  finite double. A finite double is carried as the rational it denotes (the sign of
  zero is not kept: no code below tells -0 from +0, since \<open>-0 === 0\<close>).
\<close>

datatype number = NaN | NegInf | Fin rat | PosInf

text \<open>Two to an integer power, as a rational.\<close>

definition pow2 :: "int \<Rightarrow> rat" where
  "pow2 e = (if 0 \<le> e then 2 ^ nat e else 1 / 2 ^ nat (- e))"

text \<open>\<open>expo x\<close> is the binary exponent of a non-zero rational: the floor of its base-2 logarithm.\<close>

definition expo_adj :: "int \<Rightarrow> rat \<Rightarrow> int" where
  "expo_adj d x = (if pow2 d \<le> \<bar>x\<bar> then d else d - 1)"

definition expo :: "rat \<Rightarrow> int" where
  "expo x = expo_adj (bitlen (fst (quotient_of \<bar>x\<bar>)) - bitlen (snd (quotient_of \<bar>x\<bar>))) x"

text \<open>Rounding a rational to the nearest integer, ties to the even one.\<close>

definition rne_at :: "int \<Rightarrow> rat \<Rightarrow> int" where
  "rne_at f x = (if of_int f + 1 / 2 < x then f + 1
                 else if x < of_int f + 1 / 2 then f
                 else if even f then f else f + 1)"

definition rne :: "rat \<Rightarrow> int" where
  "rne x = rne_at \<lfloor>x\<rfloor> x"

text \<open>
  \<open>fl x\<close> is the double nearest to \<open>x\<close> (round to nearest, ties to even): 53
  significant bits, and never finer than \<open>2^-1074\<close>, the spacing of the subnormals.
  \<open>ulp_exp x\<close> is the exponent of the last place kept.
\<close>

definition fl_at :: "int \<Rightarrow> rat \<Rightarrow> rat" where
  "fl_at e x = of_int (rne (x / pow2 e)) * pow2 e"

definition ulp_exp :: "rat \<Rightarrow> int" where
  "ulp_exp x = max (expo x - 52) (- 1074)"

definition fl :: "rat \<Rightarrow> rat" where
  "fl x = (if x = 0 then 0 else fl_at (ulp_exp x) x)"

text \<open>
  The result of an arithmetic operation whose exact value is \<open>x\<close>: rounded, and
  infinite on overflow (a rounded magnitude of \<open>2^1024\<close> or more).
\<close>

definition overflow :: "rat \<Rightarrow> number" where
  "overflow y = (if y = 0 \<or> expo y < 1024 then Fin y else if 0 < y then PosInf else NegInf)"

definition to_double :: "rat \<Rightarrow> number" where
  "to_double x = overflow (fl x)"

text \<open>A decimal literal of the source (\<open>0.2126\<close>, \<open>1.05\<close>) denotes the double nearest to it.\<close>

definition lit :: "rat \<Rightarrow> number" where
  "lit x = to_double x"

definition js_mul :: "number \<Rightarrow> number \<Rightarrow> number" where
  "js_mul a b = (case (a, b) of
       (NaN, _) \<Rightarrow> NaN
     | (_, NaN) \<Rightarrow> NaN
     | (Fin x, Fin y) \<Rightarrow> to_double (x * y)
     | (Fin x, PosInf) \<Rightarrow> (if x = 0 then NaN else if 0 < x then PosInf else NegInf)
     | (Fin x, NegInf) \<Rightarrow> (if x = 0 then NaN else if 0 < x then NegInf else PosInf)
     | (PosInf, Fin y) \<Rightarrow> (if y = 0 then NaN else if 0 < y then PosInf else NegInf)
     | (NegInf, Fin y) \<Rightarrow> (if y = 0 then NaN else if 0 < y then NegInf else PosInf)
     | (PosInf, PosInf) \<Rightarrow> PosInf
     | (NegInf, NegInf) \<Rightarrow> PosInf
     | (PosInf, NegInf) \<Rightarrow> NegInf
     | (NegInf, PosInf) \<Rightarrow> NegInf)"

definition js_add :: "number \<Rightarrow> number \<Rightarrow> number" where
  "js_add a b = (case (a, b) of
       (NaN, _) \<Rightarrow> NaN
     | (_, NaN) \<Rightarrow> NaN
     | (Fin x, Fin y) \<Rightarrow> to_double (x + y)
     | (PosInf, NegInf) \<Rightarrow> NaN
     | (NegInf, PosInf) \<Rightarrow> NaN
     | (PosInf, _) \<Rightarrow> PosInf
     | (_, PosInf) \<Rightarrow> PosInf
     | (NegInf, _) \<Rightarrow> NegInf
     | (_, NegInf) \<Rightarrow> NegInf)"




text \<open>The order of the numbers; every comparison with NaN is false.\<close>

fun js_lt :: "number \<Rightarrow> number \<Rightarrow> bool" where
  "js_lt NaN _ = False"
| "js_lt _ NaN = False"
| "js_lt (Fin x) (Fin y) = (x < y)"
| "js_lt NegInf NegInf = False"
| "js_lt NegInf _ = True"
| "js_lt _ NegInf = False"
| "js_lt PosInf _ = False"
| "js_lt _ PosInf = True"

text \<open>\<open>Math.min\<close> and \<open>Math.max\<close>: NaN as soon as one argument is NaN.\<close>

definition Math_min :: "number \<Rightarrow> number \<Rightarrow> number" where
  "Math_min a b = (if a = NaN \<or> b = NaN then NaN else if js_lt b a then b else a)"

definition Math_max :: "number \<Rightarrow> number \<Rightarrow> number" where
  "Math_max a b = (if a = NaN \<or> b = NaN then NaN else if js_lt a b then b else a)"



section \<open>Typed arrays (\<open>Uint8ClampedArray\<close>)\<close>

text \<open>
  The pixel buffer of an \<open>ImageData\<close> is a \<open>Uint8ClampedArray\<close>: a fixed-length
  array of bytes, four per pixel (R, G, B, A). Reading past the end gives
  \<open>undefined\<close>, which is NaN as soon as it is used as a number; writing past the end
  is ignored; a number written is converted by \<open>ToUint8Clamp\<close>.
\<close>

type_synonym u8 = "8 word"

text \<open>The value of a byte, as a natural number and as a JavaScript number.\<close>

definition byte_val :: "u8 \<Rightarrow> nat" where
  "byte_val w = unat w"

definition byte_num :: "u8 \<Rightarrow> number" where
  "byte_num w = Fin (of_nat (byte_val w))"

definition ToUint8Clamp :: "number \<Rightarrow> u8" where
  "ToUint8Clamp v = (case v of
       NaN \<Rightarrow> 0
     | NegInf \<Rightarrow> 0
     | PosInf \<Rightarrow> 255
     | Fin x \<Rightarrow> (if x \<le> 0 then 0 else if 255 \<le> x then 255 else word_of_int (rne x)))"

text \<open>\<open>xs[i]\<close> as a number, for an index that is a loop counter.\<close>

definition ta_get :: "u8 list \<Rightarrow> nat \<Rightarrow> number" where
  "ta_get xs i = (if i < length xs then byte_num (xs ! i) else NaN)"


text \<open>\<open>xs[i] = v\<close>.\<close>

definition ta_set :: "u8 list \<Rightarrow> nat \<Rightarrow> number \<Rightarrow> u8 list" where
  "ta_set xs i v = (if i < length xs then xs[i := ToUint8Clamp v] else xs)"

text \<open>
  \<open>for (let i = 0; i < data.length; i += 4) { body }\<close>, entered at counter \<open>i\<close>. The
  length of a typed array never changes, so the bound \<open>n\<close> is \<open>data.length\<close> at
  every test.
\<close>

function pixel_loop :: "(u8 list \<Rightarrow> nat \<Rightarrow> u8 list) \<Rightarrow> nat \<Rightarrow> u8 list \<Rightarrow> nat \<Rightarrow> u8 list" where
  "pixel_loop body n data i = (if i < n then pixel_loop body n (body data i) (i + 4) else data)"
  by pat_completeness auto
termination
  by (relation "measure (\<lambda>(body, n, data, i). n - i)") auto

declare pixel_loop.simps [simp del]

section \<open>js/lut-engine.js\<close>

record LUTEngine =
  lut :: "u8 list option"
  size :: nat

definition LUTEngine_new :: LUTEngine where
  "LUTEngine_new = \<lparr> lut = None, size = 0 \<rparr>"










section \<open>js/filters.js\<close>

text \<open>
  The 2D context of the canvas: its bitmap (RGBA bytes, row by row), the two pieces
  of drawing state that the render step sets, and the drawing calls made so far. The
  text \<open>rgba(r,g,b,a)\<close> built by a template literal is kept structured.
\<close>

datatype fill_style = Color string | Rgba nat nat nat number

datatype draw_call = DrawImage nat nat | FillRect string fill_style nat nat

record context2d =
  surface :: "u8 list"
  globalCompositeOperation :: string
  fillStyle :: fill_style
  calls :: "draw_call list"

record video_element =
  readyState :: nat
  videoWidth :: nat
  videoHeight :: nat
  frame :: "u8 list"




text \<open>
  \<open>getImageData(0, 0, w, h)\<close> and \<open>putImageData(imageData, 0, 0)\<close>: the render step
  passes the canvas's own width and height, so the rectangle is the whole bitmap.
\<close>

definition getImageData :: "context2d \<Rightarrow> nat \<Rightarrow> nat \<Rightarrow> u8 list" where
  "getImageData c w h = surface c"

definition putImageData :: "context2d \<Rightarrow> u8 list \<Rightarrow> context2d" where
  "putImageData c d = c\<lparr> surface := d \<rparr>"

record FilterEngine =
  canvas_width :: nat
  canvas_height :: nat
  ctx :: context2d
  video :: video_element
  exposureEV :: number
  activeFilter :: string
  running :: bool
  rafId :: "nat option"

text \<open>\<open>new FilterEngine(canvas, video)\<close>, for a canvas of the given size and context.\<close>

definition FilterEngine_new :: "nat \<Rightarrow> nat \<Rightarrow> context2d \<Rightarrow> video_element \<Rightarrow> FilterEngine" where
  "FilterEngine_new w h c v =
     \<lparr> canvas_width = w, canvas_height = h, ctx = c, video = v, exposureEV = Fin 0,
       activeFilter = ''none'', running = False, rafId = None \<rparr>"

text \<open>A context as the browser creates it, and a video element with nothing loaded.\<close>

definition fresh_context :: "u8 list \<Rightarrow> context2d" where
  "fresh_context px =
     \<lparr> surface = px, globalCompositeOperation = ''source-over'', fillStyle = Color ''#000000'',
       calls = [] \<rparr>"

definition no_video :: video_element where
  "no_video = \<lparr> readyState = 0, videoWidth = 0, videoHeight = 0, frame = [] \<rparr>"

definition setExposure :: "FilterEngine \<Rightarrow> number \<Rightarrow> FilterEngine" where
  "setExposure this ev = this\<lparr> exposureEV := Math_max (Fin (- 2)) (Math_min (Fin 2) ev) \<rparr>"

definition setFilter :: "FilterEngine \<Rightarrow> string \<Rightarrow> FilterEngine" where
  "setFilter this name = this\<lparr> activeFilter := name \<rparr>"

text \<open>\<open>0.2126 * r + 0.7152 * g + 0.0722 * b\<close>\<close>

definition luma :: "number \<Rightarrow> number \<Rightarrow> number \<Rightarrow> number" where
  "luma r g b = js_add (js_add (js_mul (lit (2126 / 10000)) r) (js_mul (lit (7152 / 10000)) g))
                       (js_mul (lit (722 / 10000)) b)"

text \<open>The chained assignment \<open>data[i] = data[i + 1] = data[i + 2] = l\<close> stores from the right.\<close>

definition gray_body :: "u8 list \<Rightarrow> nat \<Rightarrow> u8 list" where
  "gray_body data i =
     (let l = luma (ta_get data i) (ta_get data (i + 1)) (ta_get data (i + 2))
      in ta_set (ta_set (ta_set data (i + 2) l) (i + 1) l) i l)"

definition grayscale :: "context2d \<Rightarrow> nat \<Rightarrow> nat \<Rightarrow> context2d" where
  "grayscale c w h =
     (let data = getImageData c w h
      in putImageData c (pixel_loop gray_body (length data) data 0))"

definition warm_red :: "u8 list \<Rightarrow> nat \<Rightarrow> u8 list" where
  "warm_red data i = ta_set data i (Math_min (Fin 255) (js_mul (ta_get data i) (lit (105 / 100))))"

definition warm_blue :: "u8 list \<Rightarrow> nat \<Rightarrow> u8 list" where
  "warm_blue data i =
     ta_set data (i + 2) (Math_max (Fin 0) (js_mul (ta_get data (i + 2)) (lit (95 / 100))))"

definition warm_body :: "u8 list \<Rightarrow> nat \<Rightarrow> u8 list" where
  "warm_body data i = warm_blue (warm_red data i) i"

definition warm :: "context2d \<Rightarrow> nat \<Rightarrow> nat \<Rightarrow> context2d" where
  "warm c w h =
     (let data = getImageData c w h
      in putImageData c (pixel_loop warm_body (length data) data 0))"

definition cool_red :: "u8 list \<Rightarrow> nat \<Rightarrow> u8 list" where
  "cool_red data i = ta_set data i (Math_max (Fin 0) (js_mul (ta_get data i) (lit (95 / 100))))"

definition cool_blue :: "u8 list \<Rightarrow> nat \<Rightarrow> u8 list" where
  "cool_blue data i =
     ta_set data (i + 2) (Math_min (Fin 255) (js_mul (ta_get data (i + 2)) (lit (105 / 100))))"

definition cool_body :: "u8 list \<Rightarrow> nat \<Rightarrow> u8 list" where
  "cool_body data i = cool_blue (cool_red data i) i"

definition cool :: "context2d \<Rightarrow> nat \<Rightarrow> nat \<Rightarrow> context2d" where
  "cool c w h =
     (let data = getImageData c w h
      in putImageData c (pixel_loop cool_body (length data) data 0))"

definition applyFilter :: "FilterEngine \<Rightarrow> context2d \<Rightarrow> nat \<Rightarrow> nat \<Rightarrow> context2d" where
  "applyFilter this c w h =
     (if activeFilter this = ''mono'' then grayscale c w h
      else if activeFilter this = ''warm'' then warm c w h
      else if activeFilter this = ''cool'' then cool c w h
      else c)"





section \<open>js/constraints.js\<close>

text \<open>An object literal is the list of its keys and values, in the order written.\<close>

datatype js_value =
    JBool bool
  | JNum int
  | JStr string
  | JObj "(string \<times> js_value) list"
  | JArr "js_value list"

text \<open>Property access \<open>o.k\<close>: \<open>None\<close> is \<open>undefined\<close>.\<close>

fun get_prop :: "js_value \<Rightarrow> string \<Rightarrow> js_value option" where
  "get_prop (JObj kvs) k = map_of kvs k"
| "get_prop _ k = None"

text \<open>
  \<open>getCameraConstraints(facingMode = 'environment')\<close>: the default is taken when the
  argument is \<open>undefined\<close> (\<open>None\<close>).
\<close>

definition getCameraConstraints :: "string option \<Rightarrow> js_value" where
  "getCameraConstraints facingMode =
     (let facing = (case facingMode of None \<Rightarrow> ''environment'' | Some f \<Rightarrow> f) in
      JObj [(''audio'', JBool False),
            (''video'', JObj
               [(''facingMode'', JObj [(''ideal'', JStr facing)]),
                (''width'', JObj [(''ideal'', JNum 1280)]),
                (''height'', JObj [(''ideal'', JNum 720)]),
                (''frameRate'', JObj [(''ideal'', JNum 30), (''max'', JNum 30)]),
                (''advanced'', JArr [JObj [(''noiseReduction'', JStr ''high''),
                                           (''torch'', JBool False)]])])])"

text \<open>The keys of \<open>video.k\<close>, for a key \<open>k\<close> of the video constraints.\<close>

definition video_keys :: "js_value \<Rightarrow> string \<Rightarrow> string list" where
  "video_keys spec k =
     (case get_prop spec ''video'' of
        Some v \<Rightarrow> (case get_prop v k of Some (JObj kvs) \<Rightarrow> map fst kvs | _ \<Rightarrow> [])
      | None \<Rightarrow> [])"

definition video_pref :: "js_value \<Rightarrow> string \<Rightarrow> string \<Rightarrow> js_value option" where
  "video_pref spec k how =
     (case get_prop spec ''video'' of
        Some v \<Rightarrow> (case get_prop v k of Some o' \<Rightarrow> get_prop o' how | None \<Rightarrow> None)
      | None \<Rightarrow> None)"

section \<open>js/capture.js\<close>

datatype js_error = Error string

record canvas_element =
  width :: nat
  height :: nat
  bitmap :: "u8 list"

record capture_options =
  opt_type :: "string option"
  opt_quality :: "number option"

record 'blob capture_result =
  blob :: 'blob
  res_width :: nat
  res_height :: nat
  timestamp :: nat

text \<open>
  \<open>capture(options = {})\<close>, as the value the returned promise settles with: \<open>Inl\<close>
  when it rejects. \<open>toBlob\<close> is the browser's encoder (\<open>None\<close> when it hands the
  callback \<open>null\<close>) and \<open>now\<close> is \<open>Date.now()\<close>. The callback runs after the
  encoding, and reads \<open>this.canvas.width\<close> and \<open>this.canvas.height\<close> then:
  \<open>later\<close> is the canvas at that moment.
\<close>

definition type_of :: "capture_options \<Rightarrow> string" where
  "type_of options = (case opt_type options of None \<Rightarrow> ''image/jpeg'' | Some t \<Rightarrow> t)"

definition quality_of :: "capture_options \<Rightarrow> number" where
  "quality_of options = (case opt_quality options of None \<Rightarrow> lit (92 / 100) | Some q \<Rightarrow> q)"

definition NotReady :: js_error where
  "NotReady = Error ''Canvas not ready for capture''"

definition EncodingError :: js_error where
  "EncodingError = Error ''Failed to capture image''"

definition capture ::
  "(canvas_element \<Rightarrow> string \<Rightarrow> number \<Rightarrow> 'blob option) \<Rightarrow> nat \<Rightarrow>
   canvas_element option \<Rightarrow> canvas_element \<Rightarrow> capture_options \<Rightarrow> js_error + 'blob capture_result" where
  "capture toBlob now canvas later options =
     (case canvas of
        None \<Rightarrow> Inl NotReady
      | Some c \<Rightarrow>
          if width c = 0 \<or> height c = 0 then Inl NotReady
          else (case toBlob c (type_of options) (quality_of options) of
                  None \<Rightarrow> Inl EncodingError
                | Some b \<Rightarrow> Inr \<lparr> blob = b, res_width = width later,
                                  res_height = height later, timestamp = now \<rparr>))"

section \<open>js/gallery.js\<close>

text \<open>
  Object URLs are the browser's: \<open>createObjectURL\<close> mints a URL not in use and binds
  it to the blob, \<open>revokeObjectURL\<close> unbinds it. URLs are numbered in the order
  minted. The calls to \<open>revokeObjectURL\<close> are logged.
\<close>

record 'blob url_store =
  bound :: "nat \<rightharpoonup> 'blob"
  next_url :: nat
  revoke_calls :: "nat list"

definition createObjectURL :: "'blob url_store \<Rightarrow> 'blob \<Rightarrow> nat \<times> 'blob url_store" where
  "createObjectURL U b =
     (next_url U, U\<lparr> bound := (bound U)(next_url U \<mapsto> b), next_url := Suc (next_url U) \<rparr>)"

text \<open>
  \<open>revokeObjectURL\<close>, for a browser in which the call throws on the URLs in
  \<open>throws\<close>: the store after the call, and the exception if there is one.
\<close>

definition revokeObjectURL ::
  "(nat \<Rightarrow> bool) \<Rightarrow> 'blob url_store \<Rightarrow> nat \<Rightarrow> 'blob url_store \<times> js_error option" where
  "revokeObjectURL throws U u =
     (let U1 = U\<lparr> revoke_calls := revoke_calls U @ [u] \<rparr>
      in if throws u then (U1, Some (Error ''revokeObjectURL''))
         else (U1\<lparr> bound := (bound U1)(u := None) \<rparr>, None))"

record 'blob entry = "'blob capture_result" +
  url :: nat

record 'blob GalleryController =
  items :: "'blob entry list"

definition GalleryController_new :: "'blob GalleryController" where
  "GalleryController_new = \<lparr> items = [] \<rparr>"

text \<open>\<open>add(capture)\<close>: the entry returned, the gallery and the store after the call.\<close>

definition add ::
  "'blob GalleryController \<times> 'blob url_store \<Rightarrow> 'blob capture_result \<Rightarrow>
   'blob entry \<times> 'blob GalleryController \<times> 'blob url_store" where
  "add GU cap =
     (let (u, U') = createObjectURL (snd GU) (blob cap);
          e = \<lparr> blob = blob cap, res_width = res_width cap, res_height = res_height cap,
                timestamp = timestamp cap, url = u \<rparr>
      in (e, (fst GU)\<lparr> items := items (fst GU) @ [e] \<rparr>, U'))"

definition getAll :: "'blob GalleryController \<Rightarrow> 'blob entry list" where
  "getAll this = items this"

definition getLatest :: "'blob GalleryController \<Rightarrow> 'blob entry option" where
  "getLatest this = (if length (items this) \<noteq> 0 then Some (items this ! (length (items this) - 1)) else None)"

text \<open>
  The \<open>for ... of\<close> loop of \<open>clear\<close>: each pass calls \<open>revokeObjectURL\<close> inside
  \<open>try\<close>, and the empty \<open>catch\<close> drops the exception.
\<close>

fun revoke_all :: "(nat \<Rightarrow> bool) \<Rightarrow> 'blob url_store \<Rightarrow> 'blob entry list \<Rightarrow> 'blob url_store" where
  "revoke_all throws U [] = U"
| "revoke_all throws U (item # rest) =
     (case revokeObjectURL throws U (url item) of
        (U', None) \<Rightarrow> revoke_all throws U' rest
      | (U', Some _) \<Rightarrow> revoke_all throws U' rest)"

definition clear ::
  "(nat \<Rightarrow> bool) \<Rightarrow> 'blob GalleryController \<times> 'blob url_store \<Rightarrow>
   'blob GalleryController \<times> 'blob url_store" where
  "clear throws GU = ((fst GU)\<lparr> items := [] \<rparr>, revoke_all throws (snd GU) (items (fst GU)))"

text \<open>A run of \<open>add\<close> calls, collecting the entries returned.\<close>

fun add_all ::
  "'blob GalleryController \<times> 'blob url_store \<Rightarrow> 'blob capture_result list \<Rightarrow>
   'blob entry list \<times> 'blob GalleryController \<times> 'blob url_store" where
  "add_all GU [] = ([], GU)"
| "add_all GU (cap # caps) =
     (case add GU cap of
        (e, GU') \<Rightarrow> (case add_all GU' caps of (es, GU'') \<Rightarrow> (e # es, GU'')))"


section \<open>js/camera.js\<close>

record media_track =
  track_id :: nat
  kind :: string

text \<open>A \<open>MediaStream\<close> is the list of its tracks (\<open>getTracks()\<close>).\<close>

type_synonym media_stream = "media_track list"

definition getVideoTracks :: "media_stream \<Rightarrow> media_track list" where
  "getVideoTracks s = filter (\<lambda>t. kind t = ''video'') s"

text \<open>\<open>xs[0]\<close> of an array: \<open>undefined\<close> (\<open>None\<close>) when it is empty.\<close>

definition first_of :: "'a list \<Rightarrow> 'a option" where
  "first_of xs = (case xs of [] \<Rightarrow> None | x # _ \<Rightarrow> Some x)"

text \<open>
  The controller: \<open>statusEl\<close> is the text of the status element (\<open>None\<close> when the
  controller has no such element), \<open>srcObject\<close> is \<open>this.video.srcObject\<close>, and
  \<open>stop_calls\<close> logs the tracks on which \<open>stop()\<close> was called.
\<close>

record CameraController =
  statusEl :: "string option"
  srcObject :: "media_stream option"
  stream :: "media_stream option"
  videoTrack :: "media_track option"
  isRunning :: bool
  stop_calls :: "nat list"

definition CameraController_new :: "string option \<Rightarrow> CameraController" where
  "CameraController_new status =
     \<lparr> statusEl = status, srcObject = None, stream = None, videoTrack = None,
       isRunning = False, stop_calls = [] \<rparr>"

definition setStatus :: "CameraController \<Rightarrow> string \<Rightarrow> CameraController" where
  "setStatus this txt = (if statusEl this \<noteq> None then this\<lparr> statusEl := Some txt \<rparr> else this)"

definition handleError :: "CameraController \<Rightarrow> string \<Rightarrow> CameraController" where
  "handleError this name =
     (if statusEl this = None then this
      else if name = ''NotAllowedError'' then this\<lparr> statusEl := Some ''Permission denied'' \<rparr>
      else if name = ''NotFoundError'' then this\<lparr> statusEl := Some ''No camera found'' \<rparr>
      else this\<lparr> statusEl := Some ''Camera error'' \<rparr>)"

text \<open>
  \<open>start\<close> is asynchronous: it runs in three uninterrupted pieces, cut at its two
  \<open>await\<close>s, and other calls may run between the pieces.
  \<^item> \<open>Start\<close>: the call, up to the request for a stream (a no-op when running);
  \<^item> \<open>Granted s\<close>: \<open>getUserMedia\<close> resolves with \<open>s\<close>, which is stored and bound to
    the video element; \<open>Denied name\<close>: it rejects with an error of that name, which
    is reported and rethrown;
  \<^item> \<open>VideoReady\<close>: the wait for the video's metadata is over, and the rest runs
    (\<open>this.stream.getVideoTracks()\<close> is a \<open>TypeError\<close> if \<open>stop\<close> has reset
    \<open>this.stream\<close> meanwhile; it is caught, reported and rethrown).
  \<open>Stop\<close> is a call of the synchronous \<open>stop()\<close>.
\<close>

datatype camera_event = Start | Granted media_stream | Denied string | VideoReady | Stop

definition requesting :: string where
  "requesting = ''Requesting camera'' @ [CHR 0xE2, CHR 0x80, CHR 0xA6]"

definition stop :: "CameraController \<Rightarrow> CameraController" where
  "stop this =
     (case stream this of
        None \<Rightarrow> this
      | Some s \<Rightarrow>
          setStatus (this\<lparr> stop_calls := stop_calls this @ map track_id s,
                          srcObject := None, stream := None, videoTrack := None,
                          isRunning := False \<rparr>)
                    ''Camera stopped'')"

fun step :: "CameraController \<Rightarrow> camera_event \<Rightarrow> CameraController" where
  "step this Start = (if isRunning this then this else setStatus this requesting)"
| "step this (Granted s) = this\<lparr> stream := Some s, srcObject := Some s \<rparr>"
| "step this (Denied name) = handleError this name"
| "step this VideoReady =
     (case stream this of
        None \<Rightarrow> handleError this ''TypeError''
      | Some s \<Rightarrow>
          setStatus (this\<lparr> videoTrack := first_of (getVideoTracks s), isRunning := True \<rparr>)
                    ''Camera ready'')"
| "step this Stop = stop this"

definition run :: "CameraController \<Rightarrow> camera_event list \<Rightarrow> CameraController" where
  "run this evs = foldl step this evs"

text \<open>
  \<open>start(preferredFacingMode)\<close> run to its end with no other call in between, given
  what \<open>getUserMedia\<close> answers: \<open>Inl name\<close> (rejected) or \<open>Inr s\<close> (resolved).
\<close>

definition start :: "CameraController \<Rightarrow> string + media_stream \<Rightarrow> CameraController" where
  "start this answer =
     (if isRunning this then this
      else case answer of
             Inl name \<Rightarrow> run this [Start, Denied name]
           | Inr s \<Rightarrow> run this [Start, Granted s, VideoReady])"

text \<open>
  A stream that \<open>getUserMedia\<close> resolves with, for constraints that ask for video,
  has a video track.
\<close>

fun well_formed :: "camera_event \<Rightarrow> bool" where
  "well_formed (Granted s) = (getVideoTracks s \<noteq> [])"
| "well_formed _ = True"

section \<open>Predicates of the properties\<close>

text \<open>A number that is finite and lies between two bounds.\<close>

definition in_range :: "rat \<Rightarrow> rat \<Rightarrow> number \<Rightarrow> bool" where
  "in_range lo hi v = (case v of Fin x \<Rightarrow> lo \<le> x \<and> x \<le> hi | _ \<Rightarrow> False)"

text \<open>
  The invariant of the camera controller, with what keeps it inductive: a stream
  that is held has a video track.
\<close>

definition track_inv :: "CameraController \<Rightarrow> bool" where
  "track_inv this \<longleftrightarrow> ((videoTrack this \<noteq> None) = isRunning this)
       \<and> (\<forall>s. stream this = Some s \<longrightarrow> getVideoTracks s \<noteq> [])"

text \<open>
  What makes a loop body a per-pixel transformation: it keeps the length, it writes
  only the four bytes at the counter, and what it writes there depends only on those
  four bytes.
\<close>

definition pixel_local :: "(u8 list \<Rightarrow> nat \<Rightarrow> u8 list) \<Rightarrow> bool" where
  "pixel_local body \<longleftrightarrow>
     (\<forall>d i. length (body d i) = length d)
   \<and> (\<forall>d i j. j < i \<or> i + 4 \<le> j \<longrightarrow> body d i ! j = d ! j)
   \<and> (\<forall>d1 d2 i. length d1 = length d2 \<and> (\<forall>k. i \<le> k \<and> k < i + 4 \<longrightarrow> d1 ! k = d2 ! k)
         \<longrightarrow> (\<forall>k. i \<le> k \<and> k < i + 4 \<longrightarrow> body d1 i ! k = body d2 i ! k))"

text \<open>The luma of a pixel as the exact number \<open>0.2126 R + 0.7152 G + 0.0722 B\<close>.\<close>

definition luma_exact :: "u8 \<Rightarrow> u8 \<Rightarrow> u8 \<Rightarrow> rat" where
  "luma_exact r g b =
     2126 / 10000 * of_nat (byte_val r) + 7152 / 10000 * of_nat (byte_val g)
     + 722 / 10000 * of_nat (byte_val b)"





section \<open>Verified properties\<close>

subsection \<open>Camera constraints\<close>

text \<open>
  C8. For every facing preference (also none, where the default applies), the
  constraints have no \<open>exact\<close> key under width, height, frame rate or facing mode:
  width 1280, height 720 and the facing mode are \<open>ideal\<close>, the frame rate is ideal
  30 with max 30, and audio is off.
\<close>

theorem getCameraConstraints_ideal_only:
  "''exact'' \<notin> set (video_keys (getCameraConstraints f) ''width'')
   \<and> ''exact'' \<notin> set (video_keys (getCameraConstraints f) ''height'')
   \<and> ''exact'' \<notin> set (video_keys (getCameraConstraints f) ''frameRate'')
   \<and> ''exact'' \<notin> set (video_keys (getCameraConstraints f) ''facingMode'')
   \<and> video_pref (getCameraConstraints f) ''width'' ''ideal'' = Some (JNum 1280)
   \<and> video_pref (getCameraConstraints f) ''height'' ''ideal'' = Some (JNum 720)
   \<and> video_pref (getCameraConstraints f) ''facingMode'' ''ideal''
         = Some (JStr (case f of None \<Rightarrow> ''environment'' | Some x \<Rightarrow> x))
   \<and> video_pref (getCameraConstraints f) ''frameRate'' ''ideal'' = Some (JNum 30)
   \<and> video_pref (getCameraConstraints f) ''frameRate'' ''max'' = Some (JNum 30)
   \<and> get_prop (getCameraConstraints f) ''audio'' = Some (JBool False)"
  by (simp add: getCameraConstraints_def video_keys_def video_pref_def)

subsection \<open>The filter selector\<close>

text \<open>
  C10. \<open>setFilter\<close> stores any name, and for a name other than \<open>mono\<close>, \<open>warm\<close> and
  \<open>cool\<close> the filter stage returns the context it was given: the surface, the
  drawing state and the calls made are all as before.
\<close>

theorem applyFilter_unrecognized_identity:
  assumes "name \<noteq> ''mono''" and "name \<noteq> ''warm''" and "name \<noteq> ''cool''"
  shows "activeFilter (setFilter this name) = name
       \<and> applyFilter (setFilter this name) c w h = c"
  using assms by (simp add: applyFilter_def setFilter_def)

theorem applyFilter_unrecognized_identity_witness:
  "applyFilter (setFilter (FilterEngine_new 1 1 (fresh_context [1, 2, 3, 4]) no_video) ''none'')
               (fresh_context [1, 2, 3, 4]) 1 1 = fresh_context [1, 2, 3, 4]
   \<and> applyFilter (setFilter (FilterEngine_new 1 1 (fresh_context [1, 2, 3, 4]) no_video) [])
               (fresh_context [1, 2, 3, 4]) 1 1 = fresh_context [1, 2, 3, 4]"
  using applyFilter_unrecognized_identity [of "''none''"
          "FilterEngine_new 1 1 (fresh_context [1, 2, 3, 4]) no_video" "fresh_context [1, 2, 3, 4]" 1 1]
        applyFilter_unrecognized_identity [of "[]"
          "FilterEngine_new 1 1 (fresh_context [1, 2, 3, 4]) no_video" "fresh_context [1, 2, 3, 4]" 1 1]
  by simp

subsection \<open>Capture\<close>

text \<open>
  C5 as stated fails. The callback that builds the result runs after the encoding and
  reads the canvas's width and height then: when the canvas (1 by 1 when \<open>capture\<close>
  was called, and encoded so) has been resized to 3 by 2 in between, the result pairs
  the blob of the 1 by 1 surface with width 3 and height 2.
\<close>

theorem capture_resized_counterexample:
  "capture (\<lambda>c t q. Some (bitmap c)) 7
           (Some \<lparr> width = 1, height = 1, bitmap = [1, 2, 3, 4] \<rparr>)
           \<lparr> width = 3, height = 2, bitmap = replicate 24 0 \<rparr>
           \<lparr> opt_type = None, opt_quality = None \<rparr>
     = Inr \<lparr> blob = [1, 2, 3, 4], res_width = 3, res_height = 2, timestamp = 7 \<rparr>"
  by (simp add: capture_def)

text \<open>
  C5, amended. With no canvas, or a canvas of zero width or zero height, \<open>capture\<close>
  rejects with the not-ready error, so there is no blob. Otherwise the canvas is
  encoded with the type and the quality of the options, \<open>image/jpeg\<close> and 0.92 when
  they are absent: the promise rejects with the encoding error exactly when the
  encoder gives nothing, and else resolves with the blob, the width and height that
  the canvas has when the encoder calls back, and the time. These are the width and
  height of the encoded canvas when it has not been resized in between.
\<close>

theorem capture_contract:
  "(canvas = None \<or> (\<exists>c. canvas = Some c \<and> (width c = 0 \<or> height c = 0))
      \<longrightarrow> capture toBlob now canvas later opts = Inl NotReady)
   \<and> (\<forall>c. canvas = Some c \<and> width c \<noteq> 0 \<and> height c \<noteq> 0 \<longrightarrow>
         ((capture toBlob now canvas later opts = Inl EncodingError)
            = (toBlob c (case opt_type opts of None \<Rightarrow> ''image/jpeg'' | Some t \<Rightarrow> t)
                        (case opt_quality opts of None \<Rightarrow> lit (92 / 100) | Some q \<Rightarrow> q) = None))
       \<and> (\<forall>b. toBlob c (case opt_type opts of None \<Rightarrow> ''image/jpeg'' | Some t \<Rightarrow> t)
                         (case opt_quality opts of None \<Rightarrow> lit (92 / 100) | Some q \<Rightarrow> q) = Some b \<longrightarrow>
             capture toBlob now canvas later opts
               = Inr \<lparr> blob = b, res_width = width later, res_height = height later,
                       timestamp = now \<rparr>
           \<and> (width later = width c \<and> height later = height c \<longrightarrow>
                capture toBlob now canvas later opts
                  = Inr \<lparr> blob = b, res_width = width c, res_height = height c,
                          timestamp = now \<rparr>)))"
  by (auto simp: capture_def type_of_def quality_of_def split: option.splits)

theorem capture_contract_witness:
  "capture (\<lambda>c t q. if t = ''image/jpeg'' \<and> q = lit (92 / 100) then Some (bitmap c) else None) 7
           (Some \<lparr> width = 1, height = 1, bitmap = [1, 2, 3, 4] \<rparr>)
           \<lparr> width = 1, height = 1, bitmap = [1, 2, 3, 4] \<rparr>
           \<lparr> opt_type = None, opt_quality = None \<rparr>
     = Inr \<lparr> blob = [1, 2, 3, 4], res_width = 1, res_height = 1, timestamp = 7 \<rparr>
   \<and> capture (\<lambda>c t q. if t = ''image/jpeg'' \<and> q = lit (92 / 100) then Some (bitmap c) else None) 7
           (Some \<lparr> width = 1, height = 1, bitmap = [1, 2, 3, 4] \<rparr>)
           \<lparr> width = 1, height = 1, bitmap = [1, 2, 3, 4] \<rparr>
           \<lparr> opt_type = Some ''image/png'', opt_quality = None \<rparr>
     = Inl EncodingError
   \<and> capture (\<lambda>c t q. if t = ''image/jpeg'' \<and> q = lit (92 / 100) then Some (bitmap c) else None) 7
           (Some \<lparr> width = 1, height = 1, bitmap = [1, 2, 3, 4] \<rparr>)
           \<lparr> width = 1, height = 1, bitmap = [1, 2, 3, 4] \<rparr>
           \<lparr> opt_type = None, opt_quality = Some (Fin (1 / 2)) \<rparr>
     = Inl EncodingError
   \<and> capture (\<lambda>c t q. if t = ''image/jpeg'' \<and> q = lit (92 / 100) then Some (bitmap c) else None) 7
           (Some \<lparr> width = 0, height = 1, bitmap = [] \<rparr>)
           \<lparr> width = 0, height = 1, bitmap = [] \<rparr>
           \<lparr> opt_type = None, opt_quality = None \<rparr>
     = Inl NotReady"
proof -
  have q: "lit (92 / 100) \<noteq> Fin (1 / 2)"
    by code_simp
  show ?thesis
    using q
      capture_contract [of "Some \<lparr> width = 1, height = 1, bitmap = [1, 2, 3, 4] \<rparr>"
        "\<lambda>c t q. if t = ''image/jpeg'' \<and> q = lit (92 / 100) then Some (bitmap c) else None" 7
        "\<lparr> width = 1, height = 1, bitmap = [1, 2, 3, 4] \<rparr>"
        "\<lparr> opt_type = None, opt_quality = None \<rparr>"]
      capture_contract [of "Some \<lparr> width = 1, height = 1, bitmap = [1, 2, 3, 4] \<rparr>"
        "\<lambda>c t q. if t = ''image/jpeg'' \<and> q = lit (92 / 100) then Some (bitmap c) else None" 7
        "\<lparr> width = 1, height = 1, bitmap = [1, 2, 3, 4] \<rparr>"
        "\<lparr> opt_type = Some ''image/png'', opt_quality = None \<rparr>"]
      capture_contract [of "Some \<lparr> width = 1, height = 1, bitmap = [1, 2, 3, 4] \<rparr>"
        "\<lambda>c t q. if t = ''image/jpeg'' \<and> q = lit (92 / 100) then Some (bitmap c) else None" 7
        "\<lparr> width = 1, height = 1, bitmap = [1, 2, 3, 4] \<rparr>"
        "\<lparr> opt_type = None, opt_quality = Some (Fin (1 / 2)) \<rparr>"]
      capture_contract [of "Some \<lparr> width = 0, height = 1, bitmap = [] \<rparr>"
        "\<lambda>c t q. if t = ''image/jpeg'' \<and> q = lit (92 / 100) then Some (bitmap c) else None" 7
        "\<lparr> width = 0, height = 1, bitmap = [] \<rparr>"
        "\<lparr> opt_type = None, opt_quality = None \<rparr>"]
    by simp
qed

subsection \<open>The camera session\<close>

lemma track_inv_new: "track_inv (CameraController_new status)"
  by (simp add: track_inv_def CameraController_new_def)

lemma track_inv_step: "track_inv this \<Longrightarrow> well_formed ev \<Longrightarrow> track_inv (step this ev)"
  by (cases ev) (auto simp: track_inv_def setStatus_def handleError_def stop_def first_of_def
      split: option.splits list.splits)

lemma track_inv_run: "track_inv this \<Longrightarrow> list_all well_formed evs \<Longrightarrow> track_inv (run this evs)"
  unfolding run_def
  by (induction evs arbitrary: this) (auto simp: track_inv_step)

text \<open>
  C4. From a new controller, after any sequence of calls of \<open>start\<close> and \<open>stop\<close>,
  in whatever order the pieces of the pending \<open>start\<close>s and the \<open>stop\<close>s run, a video
  track is held if and only if the session is running; the streams granted are those
  \<open>getUserMedia\<close> can grant (they have a video track).
\<close>

theorem videoTrack_iff_isRunning:
  assumes "list_all well_formed evs"
  shows "(videoTrack (run (CameraController_new status) evs) \<noteq> None)
           = isRunning (run (CameraController_new status) evs)"
  using track_inv_run [OF track_inv_new assms] by (simp add: track_inv_def)

theorem videoTrack_iff_isRunning_witness:
  "list_all well_formed
     [Start, Granted [\<lparr> track_id = 1, kind = ''video'' \<rparr>], VideoReady, Stop, Start, Denied ''NotFoundError'']
   \<and> ((videoTrack (run (CameraController_new None)
         [Start, Granted [\<lparr> track_id = 1, kind = ''video'' \<rparr>], VideoReady, Stop, Start, Denied ''NotFoundError''])
         \<noteq> None)
       = isRunning (run (CameraController_new None)
         [Start, Granted [\<lparr> track_id = 1, kind = ''video'' \<rparr>], VideoReady, Stop, Start, Denied ''NotFoundError'']))"
proof -
  have wf: "list_all well_formed
     [Start, Granted [\<lparr> track_id = 1, kind = ''video'' \<rparr>], VideoReady, Stop, Start, Denied ''NotFoundError'']"
    by (simp add: getVideoTracks_def)
  show ?thesis
    using wf videoTrack_iff_isRunning [OF wf, of None] by simp
qed

subsection \<open>Exposure\<close>

text \<open>
  C7 as stated fails: \<open>Math.min\<close> and \<open>Math.max\<close> return NaN for a NaN argument, so
  \<open>setExposure(NaN)\<close> stores NaN, which is not in the range.
\<close>

theorem setExposure_NaN_counterexample:
  "exposureEV (setExposure (FilterEngine_new 0 0 (fresh_context []) no_video) NaN) = NaN
   \<and> \<not> in_range (- 2) 2 (exposureEV (setExposure (FilterEngine_new 0 0 (fresh_context []) no_video) NaN))"
  by (simp add: setExposure_def Math_max_def Math_min_def in_range_def)

text \<open>
  C7, amended. For every input other than NaN, the infinities included, the stored
  exposure value lies in \<open>[-2, 2]\<close>: it is 2 for an input above 2, -2 for an input
  below -2, and the input itself otherwise. A NaN input is stored as NaN.
\<close>

theorem setExposure_clamps:
  "(ev \<noteq> NaN \<longrightarrow>
      in_range (- 2) 2 (exposureEV (setExposure this ev))
    \<and> exposureEV (setExposure this ev)
        = (if js_lt (Fin 2) ev then Fin 2 else if js_lt ev (Fin (- 2)) then Fin (- 2) else ev))
   \<and> (ev = NaN \<longrightarrow> exposureEV (setExposure this ev) = NaN)"
  by (cases ev) (auto simp: setExposure_def Math_max_def Math_min_def in_range_def)

theorem setExposure_clamps_witness:
  "exposureEV (setExposure (FilterEngine_new 0 0 (fresh_context []) no_video) (Fin 10)) = Fin 2
   \<and> exposureEV (setExposure (FilterEngine_new 0 0 (fresh_context []) no_video) (Fin (- 100))) = Fin (- 2)
   \<and> exposureEV (setExposure (FilterEngine_new 0 0 (fresh_context []) no_video) PosInf) = Fin 2
   \<and> exposureEV (setExposure (FilterEngine_new 0 0 (fresh_context []) no_video) (Fin (1 / 2))) = Fin (1 / 2)
   \<and> exposureEV (setExposure (FilterEngine_new 0 0 (fresh_context []) no_video) NaN) = NaN"
  using setExposure_clamps [of "Fin 10" "FilterEngine_new 0 0 (fresh_context []) no_video"]
        setExposure_clamps [of "Fin (- 100)" "FilterEngine_new 0 0 (fresh_context []) no_video"]
        setExposure_clamps [of PosInf "FilterEngine_new 0 0 (fresh_context []) no_video"]
        setExposure_clamps [of "Fin (1 / 2)" "FilterEngine_new 0 0 (fresh_context []) no_video"]
        setExposure_clamps [of NaN "FilterEngine_new 0 0 (fresh_context []) no_video"]
  by simp






subsection \<open>The gallery\<close>

lemma revoke_all_calls:
  "revoke_calls (revoke_all throws U es) = revoke_calls U @ map url es"
  by (induction es arbitrary: U) (auto simp: revokeObjectURL_def Let_def)

lemma revoke_all_bound:
  "bound (revoke_all throws U es) u
     = (if u \<in> url ` set es \<and> \<not> throws u then None else bound U u)"
  by (induction es arbitrary: U) (auto simp: revokeObjectURL_def Let_def)

lemma add_all_facts:
  "add_all (G, U) caps = (es, G', U') \<Longrightarrow>
     items G' = items G @ es
   \<and> (\<forall>e \<in> set es. next_url U \<le> url e)
   \<and> map blob es = map blob caps
   \<and> next_url U' = next_url U + length caps
   \<and> revoke_calls U' = revoke_calls U
   \<and> (\<forall>u. u < next_url U \<longrightarrow> bound U' u = bound U u)
   \<and> (\<forall>e \<in> set es. bound U' (url e) = Some (blob e))"
proof (induction caps arbitrary: G U es G' U')
  case Nil
  then show ?case by simp
next
  case (Cons cap caps)
  obtain e G1 U1 where a: "add (G, U) cap = (e, G1, U1)"
    by (metis prod_cases3)
  obtain es1 G2 U2 where r: "add_all (G1, U1) caps = (es1, G2, U2)"
    by (metis prod_cases3)
  from Cons.prems a r have eq: "es = e # es1" "G' = G2" "U' = U2"
    by auto
  from a have e: "url e = next_url U" "blob e = blob cap" "items G1 = items G @ [e]"
    "next_url U1 = Suc (next_url U)" "revoke_calls U1 = revoke_calls U"
    "bound U1 = (bound U)(next_url U \<mapsto> blob cap)"
    by (auto simp: add_def createObjectURL_def Let_def)
  note ih = Cons.IH[OF r]
  show ?case
    using ih e unfolding eq
    by auto
qed

text \<open>
  C6. Take a gallery and a URL store, any run of \<open>add\<close> calls returning the entries
  \<open>es\<close>, and then \<open>clear\<close>, in a browser where \<open>revokeObjectURL\<close> throws on some
  URLs. Before \<open>clear\<close> each handle returned is bound to its blob. \<open>clear\<close> leaves
  no entry; it has called \<open>revokeObjectURL\<close> once on the handle of every entry, in
  order, the throwing calls not stopping it; every handle whose release did not
  throw is unbound afterwards. A second \<open>clear\<close> changes nothing more.
\<close>

theorem clear_releases_all:
  assumes "add_all (G, U) caps = (es, G', U')"
  shows "items G' = items G @ es
       \<and> (\<forall>e \<in> set es. bound U' (url e) = Some (blob e))
       \<and> items (fst (clear throws (G', U'))) = []
       \<and> revoke_calls (snd (clear throws (G', U'))) = revoke_calls U @ map url (items G) @ map url es
       \<and> (\<forall>e \<in> set (items G) \<union> set es.
            \<not> throws (url e) \<longrightarrow> bound (snd (clear throws (G', U'))) (url e) = None)
       \<and> clear throws (clear throws (G', U')) = clear throws (G', U')"
  using add_all_facts [OF assms]
  by (auto simp: clear_def revoke_all_calls revoke_all_bound)

theorem clear_releases_all_witness:
  "add_all (GalleryController_new, \<lparr> bound = Map.empty, next_url = 0, revoke_calls = [] \<rparr>)
      [\<lparr> blob = ''a'', res_width = 2, res_height = 1, timestamp = 7 \<rparr>,
       \<lparr> blob = ''b'', res_width = 2, res_height = 1, timestamp = 9 \<rparr>]
    = ([\<lparr> blob = ''a'', res_width = 2, res_height = 1, timestamp = 7, url = 0 \<rparr>,
        \<lparr> blob = ''b'', res_width = 2, res_height = 1, timestamp = 9, url = 1 \<rparr>],
       \<lparr> items = [\<lparr> blob = ''a'', res_width = 2, res_height = 1, timestamp = 7, url = 0 \<rparr>,
                  \<lparr> blob = ''b'', res_width = 2, res_height = 1, timestamp = 9, url = 1 \<rparr>] \<rparr>,
       \<lparr> bound = [0 \<mapsto> ''a'', 1 \<mapsto> ''b''], next_url = 2, revoke_calls = [] \<rparr>)
   \<and> items (fst (clear (\<lambda>u. u = 0)
        (\<lparr> items = [\<lparr> blob = ''a'', res_width = 2, res_height = 1, timestamp = 7, url = 0 \<rparr>,
                   \<lparr> blob = ''b'', res_width = 2, res_height = 1, timestamp = 9, url = 1 \<rparr>] \<rparr>,
         \<lparr> bound = [0 \<mapsto> ''a'', 1 \<mapsto> ''b''], next_url = 2, revoke_calls = [] \<rparr>))) = []
   \<and> revoke_calls (snd (clear (\<lambda>u. u = 0)
        (\<lparr> items = [\<lparr> blob = ''a'', res_width = 2, res_height = 1, timestamp = 7, url = 0 \<rparr>,
                   \<lparr> blob = ''b'', res_width = 2, res_height = 1, timestamp = 9, url = 1 \<rparr>] \<rparr>,
         \<lparr> bound = [0 \<mapsto> ''a'', 1 \<mapsto> ''b''], next_url = 2, revoke_calls = [] \<rparr>))) = [0, 1]
   \<and> bound (snd (clear (\<lambda>u. u = 0)
        (\<lparr> items = [\<lparr> blob = ''a'', res_width = 2, res_height = 1, timestamp = 7, url = 0 \<rparr>,
                   \<lparr> blob = ''b'', res_width = 2, res_height = 1, timestamp = 9, url = 1 \<rparr>] \<rparr>,
         \<lparr> bound = [0 \<mapsto> ''a'', 1 \<mapsto> ''b''], next_url = 2, revoke_calls = [] \<rparr>))) 1 = None"
proof -
  have run: "add_all (GalleryController_new, \<lparr> bound = Map.empty, next_url = 0, revoke_calls = [] \<rparr>)
      [\<lparr> blob = ''a'', res_width = 2, res_height = 1, timestamp = 7 \<rparr>,
       \<lparr> blob = ''b'', res_width = 2, res_height = 1, timestamp = 9 \<rparr>]
    = ([\<lparr> blob = ''a'', res_width = 2, res_height = 1, timestamp = 7, url = 0 \<rparr>,
        \<lparr> blob = ''b'', res_width = 2, res_height = 1, timestamp = 9, url = 1 \<rparr>],
       \<lparr> items = [\<lparr> blob = ''a'', res_width = 2, res_height = 1, timestamp = 7, url = 0 \<rparr>,
                  \<lparr> blob = ''b'', res_width = 2, res_height = 1, timestamp = 9, url = 1 \<rparr>] \<rparr>,
       \<lparr> bound = [0 \<mapsto> ''a'', 1 \<mapsto> ''b''], next_url = 2, revoke_calls = [] \<rparr>)"
    by (simp add: add_def createObjectURL_def GalleryController_new_def Let_def)
  show ?thesis
    using run clear_releases_all [OF run, of "\<lambda>u. u = 0"]
    by (simp add: GalleryController_new_def)
qed

subsection \<open>Rounding to a double\<close>

lemma pow2_powi: "pow2 e = power_int 2 e"
  by (simp add: pow2_def power_int_def power_inverse [symmetric] inverse_eq_divide power_one_over)

lemma pow2_pos [simp]: "0 < pow2 e"
  by (simp add: pow2_powi zero_less_power_int)

lemma pow2_nz [simp]: "pow2 e \<noteq> 0"
  by (metis less_irrefl pow2_pos)

lemma pow2_ge0 [simp]: "0 \<le> pow2 e"
  by (rule less_imp_le) (rule pow2_pos)

lemma pow2_0 [simp]: "pow2 0 = 1"
  by (simp add: pow2_def)

lemma pow2_add: "pow2 (a + b) = pow2 a * pow2 b"
  by (simp add: pow2_powi power_int_add)

lemma pow2_mono: "a \<le> b \<Longrightarrow> pow2 a \<le> pow2 b"
  by (simp add: pow2_powi power_int_increasing)

lemma pow2_less_iff: "pow2 a < pow2 b \<longleftrightarrow> a < b"
  by (metis pow2_mono leD leI pow2_powi power_int_strict_increasing one_less_numeral_iff semiring_norm(76))

lemma pow2_nat: "0 \<le> e \<Longrightarrow> pow2 e = of_int (2 ^ nat e)"
  by (simp add: pow2_def)

lemma expo_bounds:
  assumes "x \<noteq> 0"
  shows "pow2 (expo x) \<le> \<bar>x\<bar>" and "\<bar>x\<bar> < pow2 (expo x + 1)"
proof -
  obtain p q where pq: "quotient_of \<bar>x\<bar> = (p, q)" by (cases "quotient_of \<bar>x\<bar>")
  have q: "0 < q" using pq quotient_of_denom_pos by blast
  have xq: "\<bar>x\<bar> = of_int p / of_int q" using pq quotient_of_div by blast
  have p: "0 < p"
  proof -
    have "0 < \<bar>x\<bar>" using assms by simp
    then have "0 < (of_int p :: rat) / of_int q" using xq by simp
    then show ?thesis using q by (simp add: zero_less_divide_iff)
  qed
  define d where "d = bitlen p - bitlen q"
  have bp: "2 ^ nat (bitlen p - 1) \<le> p" "p < 2 ^ nat (bitlen p)" using bitlen_bounds[OF p] by auto
  have bq: "2 ^ nat (bitlen q - 1) \<le> q" "q < 2 ^ nat (bitlen q)" using bitlen_bounds[OF q] by auto
  have bp1: "1 \<le> bitlen p" using p by (simp add: bitlen_alt_def)
  have bq1: "1 \<le> bitlen q" using q by (simp add: bitlen_alt_def)
  have P1: "pow2 (bitlen p - 1) \<le> of_int p"
  proof -
    have "(of_int (2 ^ nat (bitlen p - 1)) :: rat) \<le> of_int p" using bp(1) of_int_le_iff by blast
    then show ?thesis using bp1 by (simp add: pow2_nat)
  qed
  have P2: "of_int p < pow2 (bitlen p)"
  proof -
    have "(of_int p :: rat) < of_int (2 ^ nat (bitlen p))" using bp(2) of_int_less_iff by blast
    then show ?thesis using bp1 by (simp add: pow2_nat)
  qed
  have Q1: "pow2 (bitlen q - 1) \<le> of_int q"
  proof -
    have "(of_int (2 ^ nat (bitlen q - 1)) :: rat) \<le> of_int q" using bq(1) of_int_le_iff by blast
    then show ?thesis using bq1 by (simp add: pow2_nat)
  qed
  have Q2: "of_int q < pow2 (bitlen q)"
  proof -
    have "(of_int q :: rat) < of_int (2 ^ nat (bitlen q))" using bq(2) of_int_less_iff by blast
    then show ?thesis using bq1 by (simp add: pow2_nat)
  qed
  have qpos: "(0::rat) < of_int q" using q by simp
  have lower: "pow2 (d - 1) < \<bar>x\<bar>"
  proof -
    have "pow2 (d - 1) * of_int q < pow2 (d - 1) * pow2 (bitlen q)"
      using Q2 by simp
    also have "\<dots> = pow2 (bitlen p - 1)"
      by (simp add: d_def pow2_add [symmetric])
    also have "\<dots> \<le> of_int p" by (rule P1)
    finally show ?thesis using qpos by (simp add: xq pos_less_divide_eq)
  qed
  have upper: "\<bar>x\<bar> < pow2 (d + 1)"
  proof -
    have "of_int p < pow2 (bitlen p)" by (rule P2)
    also have "\<dots> = pow2 (d + 1) * pow2 (bitlen q - 1)"
      by (simp add: d_def pow2_add [symmetric])
    also have "\<dots> \<le> pow2 (d + 1) * of_int q"
      using Q1 by simp
    finally show ?thesis using qpos by (simp add: xq pos_divide_less_eq)
  qed
  have e: "expo x = (if pow2 d \<le> \<bar>x\<bar> then d else d - 1)"
    by (simp add: expo_def expo_adj_def pq d_def)
  show "pow2 (expo x) \<le> \<bar>x\<bar>" using lower by (simp add: e)
  show "\<bar>x\<bar> < pow2 (expo x + 1)" using upper by (auto simp: e)
qed

lemma expo_le: "x \<noteq> 0 \<Longrightarrow> \<bar>x\<bar> < pow2 (E + 1) \<Longrightarrow> expo x \<le> E"
  using expo_bounds(1)[of x] pow2_less_iff[of "expo x" "E + 1"] by simp

lemma expo_ge: "x \<noteq> 0 \<Longrightarrow> pow2 E \<le> \<bar>x\<bar> \<Longrightarrow> E \<le> expo x"
  using expo_bounds(2)[of x] pow2_less_iff[of E "expo x + 1"] by simp

lemma rne_cases: "rne x = \<lfloor>x\<rfloor> \<or> rne x = \<lfloor>x\<rfloor> + 1"
  by (simp add: rne_def rne_at_def)

lemma rne_err: "\<bar>of_int (rne x) - x\<bar> \<le> 1 / 2"
proof -
  have "of_int \<lfloor>x\<rfloor> \<le> x" "x < of_int \<lfloor>x\<rfloor> + 1" by linarith+
  then show ?thesis
    by (auto simp: rne_def rne_at_def abs_le_iff)
qed

lemma rne_ge: "of_int n \<le> x \<Longrightarrow> n \<le> rne x"
proof -
  assume "of_int n \<le> x"
  then have "n \<le> \<lfloor>x\<rfloor>" by (simp add: le_floor_iff)
  then show ?thesis using rne_cases[of x] by auto
qed

lemma rne_le: "x \<le> of_int n \<Longrightarrow> rne x \<le> n"
proof (cases "x = of_int n")
  case True
  then show ?thesis by (simp add: rne_def rne_at_def)
next
  case False
  assume "x \<le> of_int n"
  with False have "x < of_int n" by simp
  then have "\<lfloor>x\<rfloor> < n" by (simp add: floor_less_iff)
  then show ?thesis using rne_cases[of x] by auto
qed

lemma rne_of_int [simp]: "rne (of_int n) = n"
  using rne_ge[of n "of_int n"] rne_le[of "of_int n" n] by simp

lemma rne_near: "of_int n - 1 / 2 < x \<Longrightarrow> x < of_int n + 1 / 2 \<Longrightarrow> rne x = n"
proof -
  assume a: "of_int n - 1 / 2 < x" "x < of_int n + 1 / 2"
  have "\<bar>of_int (rne x) - x\<bar> \<le> 1 / 2" by (rule rne_err)
  with a have "\<bar>(of_int (rne x) :: rat) - of_int n\<bar> < 1" by linarith
  then have "\<bar>rne x - n\<bar> < 1"
    by (metis of_int_abs of_int_diff of_int_less_1_iff)
  then show ?thesis by simp
qed

lemma fl_eq: "x \<noteq> 0 \<Longrightarrow> fl x = of_int (rne (x / pow2 (ulp_exp x))) * pow2 (ulp_exp x)"
  by (simp add: fl_def fl_at_def)

lemma fl_0 [simp]: "fl 0 = 0"
  by (simp add: fl_def)

lemma grid_int:
  assumes "e \<le> e'"
  shows "of_int k * pow2 e' / pow2 e = (of_int (k * 2 ^ nat (e' - e)) :: rat)"
proof -
  have "pow2 e' = pow2 (e' - e) * pow2 e"
    by (simp add: pow2_add [symmetric])
  moreover have "pow2 (e' - e) = of_int (2 ^ nat (e' - e))"
    using assms by (simp add: pow2_nat)
  ultimately show ?thesis by simp
qed

lemma grid_mult:
  assumes "e \<le> e'"
  shows "(of_int (k * 2 ^ nat (e' - e)) :: rat) * pow2 e = of_int k * pow2 e'"
proof -
  have "pow2 e' = pow2 (e' - e) * pow2 e"
    by (simp add: pow2_add [symmetric])
  moreover have "pow2 (e' - e) = of_int (2 ^ nat (e' - e))"
    using assms by (simp add: pow2_nat)
  ultimately show ?thesis by simp
qed

lemma fl_ge_grid:
  assumes "ulp_exp x \<le> e'" and "of_int k * pow2 e' \<le> x"
  shows "of_int k * pow2 e' \<le> fl x"
proof (cases "x = 0")
  case True
  then show ?thesis using assms by simp
next
  case False
  let ?e = "ulp_exp x"
  let ?m = "k * 2 ^ nat (e' - ?e)"
  have g: "of_int k * pow2 e' / pow2 ?e = (of_int ?m :: rat)"
    by (rule grid_int[OF assms(1)])
  have "of_int k * pow2 e' / pow2 ?e \<le> x / pow2 ?e"
    using assms(2) by (simp add: divide_right_mono)
  then have "of_int ?m \<le> x / pow2 ?e" using g by simp
  then have "?m \<le> rne (x / pow2 ?e)" by (rule rne_ge)
  then have "(of_int ?m :: rat) \<le> of_int (rne (x / pow2 ?e))" by (simp only: of_int_le_iff)
  then have A: "of_int ?m * pow2 ?e \<le> of_int (rne (x / pow2 ?e)) * pow2 ?e"
    by (rule mult_right_mono) (rule pow2_ge0)
  have B: "of_int ?m * pow2 ?e = of_int k * pow2 e'"
    by (rule grid_mult[OF assms(1)])
  have C: "fl x = of_int (rne (x / pow2 ?e)) * pow2 ?e"
    using False by (rule fl_eq)
  from A show ?thesis unfolding B C .
qed

lemma fl_le_grid:
  assumes "ulp_exp x \<le> e'" and "x \<le> of_int k * pow2 e'"
  shows "fl x \<le> of_int k * pow2 e'"
proof (cases "x = 0")
  case True
  then show ?thesis using assms by simp
next
  case False
  let ?e = "ulp_exp x"
  let ?m = "k * 2 ^ nat (e' - ?e)"
  have g: "of_int k * pow2 e' / pow2 ?e = (of_int ?m :: rat)"
    by (rule grid_int[OF assms(1)])
  have "x / pow2 ?e \<le> of_int k * pow2 e' / pow2 ?e"
    using assms(2) by (simp add: divide_right_mono)
  then have "x / pow2 ?e \<le> of_int ?m" using g by simp
  then have "rne (x / pow2 ?e) \<le> ?m" by (rule rne_le)
  then have "(of_int (rne (x / pow2 ?e)) :: rat) \<le> of_int ?m" by (simp only: of_int_le_iff)
  then have A: "of_int (rne (x / pow2 ?e)) * pow2 ?e \<le> of_int ?m * pow2 ?e"
    by (rule mult_right_mono) (rule pow2_ge0)
  have B: "of_int ?m * pow2 ?e = of_int k * pow2 e'"
    by (rule grid_mult[OF assms(1)])
  have C: "fl x = of_int (rne (x / pow2 ?e)) * pow2 ?e"
    using False by (rule fl_eq)
  from A show ?thesis unfolding B C .
qed

lemma fl_err: "\<bar>fl x - x\<bar> \<le> pow2 (ulp_exp x) / 2"
proof (cases "x = 0")
  case True
  then show ?thesis by simp
next
  case False
  let ?e = "ulp_exp x"
  have "\<bar>of_int (rne (x / pow2 ?e)) - x / pow2 ?e\<bar> \<le> 1 / 2" by (rule rne_err)
  then have "\<bar>of_int (rne (x / pow2 ?e)) - x / pow2 ?e\<bar> * pow2 ?e \<le> 1 / 2 * pow2 ?e"
    by (simp add: mult_right_mono)
  moreover have "\<bar>of_int (rne (x / pow2 ?e)) - x / pow2 ?e\<bar> * pow2 ?e
      = \<bar>of_int (rne (x / pow2 ?e)) * pow2 ?e - x\<bar>"
  proof -
    have "\<bar>of_int (rne (x / pow2 ?e)) - x / pow2 ?e\<bar> * pow2 ?e
        = \<bar>(of_int (rne (x / pow2 ?e)) - x / pow2 ?e) * pow2 ?e\<bar>"
      by (simp add: abs_mult)
    also have "(of_int (rne (x / pow2 ?e)) - x / pow2 ?e) * pow2 ?e
        = of_int (rne (x / pow2 ?e)) * pow2 ?e - x"
      by (simp add: left_diff_distrib)
    finally show ?thesis .
  qed
  ultimately show ?thesis using False by (simp add: fl_eq)
qed

lemma ulp_exp_le: "x \<noteq> 0 \<Longrightarrow> \<bar>x\<bar> < pow2 (E + 1) \<Longrightarrow> - 1022 \<le> E \<Longrightarrow> ulp_exp x \<le> E - 52"
  using expo_le[of x E] by (simp add: ulp_exp_def)

lemma fl_err_bound:
  assumes "\<bar>x\<bar> < pow2 (E + 1)" and "- 1022 \<le> E"
  shows "\<bar>fl x - x\<bar> \<le> pow2 (E - 53)"
proof (cases "x = 0")
  case True
  then show ?thesis by (simp add: less_imp_le)
next
  case False
  have "ulp_exp x \<le> E - 52" using ulp_exp_le[OF False assms] .
  then have "pow2 (ulp_exp x) \<le> pow2 (E - 52)" by (rule pow2_mono)
  moreover have "pow2 (E - 52) = 2 * pow2 (E - 53)"
    using pow2_add[of 1 "E - 53"] by (simp add: pow2_def)
  ultimately show ?thesis using fl_err[of x] by linarith
qed


lemma fl_ge_int: "\<bar>x\<bar> < 2 ^ 53 \<Longrightarrow> of_int k \<le> x \<Longrightarrow> of_int k \<le> fl x"
proof -
  assume a: "\<bar>x\<bar> < 2 ^ 53" "of_int k \<le> x"
  show ?thesis
  proof (cases "x = 0")
    case True
    then show ?thesis using a by simp
  next
    case False
    have "\<bar>x\<bar> < pow2 (52 + 1)" using a by (simp add: pow2_def)
    then have "ulp_exp x \<le> 0" using ulp_exp_le[of x 52] False by simp
    then show ?thesis using fl_ge_grid[of x 0 k] a by (simp add: pow2_def)
  qed
qed

lemma fl_le_int: "\<bar>x\<bar> < 2 ^ 53 \<Longrightarrow> x \<le> of_int k \<Longrightarrow> fl x \<le> of_int k"
proof -
  assume a: "\<bar>x\<bar> < 2 ^ 53" "x \<le> of_int k"
  show ?thesis
  proof (cases "x = 0")
    case True
    then show ?thesis using a by simp
  next
    case False
    have "\<bar>x\<bar> < pow2 (52 + 1)" using a by (simp add: pow2_def)
    then have "ulp_exp x \<le> 0" using ulp_exp_le[of x 52] False by simp
    then show ?thesis using fl_le_grid[of x 0 k] a by (simp add: pow2_def)
  qed
qed

lemma overflow_Fin: "\<bar>y\<bar> < pow2 1024 \<Longrightarrow> overflow y = Fin y"
proof (cases "y = 0")
  case True
  then show ?thesis by (simp add: overflow_def)
next
  case False
  assume "\<bar>y\<bar> < pow2 1024"
  then have "expo y \<le> 1023" using expo_le[of y 1023] False by simp
  then show ?thesis by (simp add: overflow_def)
qed

lemma to_double_Fin:
  assumes "\<bar>x\<bar> < 2 ^ 53"
  shows "to_double x = Fin (fl x)"
proof -
  have "- (2 ^ 53) \<le> x" "x \<le> 2 ^ 53" using assms by (simp_all add: abs_less_iff less_imp_le)
  then have "of_int (- (2 ^ 53)) \<le> x" "x \<le> of_int (2 ^ 53)" by simp_all
  then have "of_int (- (2 ^ 53)) \<le> fl x" "fl x \<le> of_int (2 ^ 53)"
    using fl_ge_int[OF assms] fl_le_int[OF assms] by blast+
  then have "\<bar>fl x\<bar> \<le> 2 ^ 53" by (simp add: abs_le_iff)
  moreover have "(2 ^ 53 :: rat) < pow2 1024" by (simp add: pow2_def)
  ultimately have "\<bar>fl x\<bar> < pow2 1024" by linarith
  then show ?thesis by (simp add: to_double_def overflow_Fin)
qed

subsection \<open>Bytes\<close>


lemma byte_val_le: "byte_val w \<le> 255"
proof -
  have "unat w < 2 ^ LENGTH(8)" by (rule unsigned_less)
  then show ?thesis by (simp add: byte_val_def)
qed

lemma byte_le_iff: "w \<le> v \<longleftrightarrow> byte_val w \<le> byte_val v"
  by (simp add: byte_val_def word_le_nat_alt)

lemma byte_eq_iff: "w = v \<longleftrightarrow> byte_val w = byte_val v"
  by (simp add: byte_val_def word_unat_eq_iff)

lemma byte_val_clamp:
  "byte_val (ToUint8Clamp (Fin x)) = (if x \<le> 0 then 0 else if 255 \<le> x then 255 else nat (rne x))"
proof -
  have "unat (word_of_int (rne x) :: u8) = nat (rne x)" if "0 < x" "x < 255"
  proof -
    have "0 \<le> rne x" using rne_ge[of 0 x] that by simp
    moreover have "rne x \<le> 255" using rne_le[of x 255] that by simp
    ultimately show ?thesis
      by (simp add: unat_eq_nat_uint uint_word_of_int)
  qed
  then show ?thesis by (auto simp: ToUint8Clamp_def byte_val_def not_le)
qed

lemma clamp_ge_nat:
  assumes "n \<le> 255" and "of_nat n \<le> x"
  shows "n \<le> byte_val (ToUint8Clamp (Fin x))"
proof (cases "x \<le> 0")
  case True
  then have "(of_nat n :: rat) \<le> 0" using assms by linarith
  then show ?thesis by simp
next
  case False
  have "of_int (int n) \<le> x" using assms by simp
  then have "int n \<le> rne x" by (rule rne_ge)
  then show ?thesis using False assms(1) by (auto simp: byte_val_clamp)
qed

lemma clamp_le_nat:
  assumes "n \<le> 255" and "x \<le> of_nat n"
  shows "byte_val (ToUint8Clamp (Fin x)) \<le> n"
proof (cases "x \<le> 0")
  case True
  then show ?thesis by (simp add: byte_val_clamp)
next
  case False
  have "x \<le> of_int (int n)" using assms by simp
  then have r: "rne x \<le> int n" by (rule rne_le)
  show ?thesis
  proof (cases "255 \<le> x")
    case True
    then have "(of_nat 255 :: rat) \<le> of_nat n" using assms by simp
    then have "255 \<le> n" by (simp only: of_nat_le_iff)
    then show ?thesis using True False assms(1) by (simp add: byte_val_clamp)
  next
    case f: False
    then show ?thesis using False r by (simp add: byte_val_clamp)
  qed
qed

lemma ToUint8Clamp_ge: "of_nat (byte_val w) \<le> x \<Longrightarrow> w \<le> ToUint8Clamp (Fin x)"
  unfolding byte_le_iff by (rule clamp_ge_nat[OF byte_val_le])

lemma ToUint8Clamp_le: "x \<le> of_nat (byte_val w) \<Longrightarrow> ToUint8Clamp (Fin x) \<le> w"
  unfolding byte_le_iff by (rule clamp_le_nat[OF byte_val_le])

lemma ToUint8Clamp_byte [simp]: "ToUint8Clamp (byte_num w) = w"
proof -
  have "w \<le> ToUint8Clamp (Fin (of_nat (byte_val w)))" by (rule ToUint8Clamp_ge) simp
  moreover have "ToUint8Clamp (Fin (of_nat (byte_val w))) \<le> w" by (rule ToUint8Clamp_le) simp
  ultimately show ?thesis by (simp add: byte_num_def)
qed

subsection \<open>The pixel loop\<close>

lemma length_ta_set [simp]: "length (ta_set xs i v) = length xs"
  by (simp add: ta_set_def)

lemma nth_ta_set_neq [simp]: "i \<noteq> j \<Longrightarrow> ta_set xs i v ! j = xs ! j"
  by (simp add: ta_set_def)

lemma nth_ta_set_eq [simp]: "i < length xs \<Longrightarrow> ta_set xs i v ! i = ToUint8Clamp v"
  by (simp add: ta_set_def)

lemma ta_get_in [simp]: "i < length xs \<Longrightarrow> ta_get xs i = byte_num (xs ! i)"
  by (simp add: ta_get_def)

lemma pixel_local_length: "pixel_local body \<Longrightarrow> length (body d i) = length d"
  unfolding pixel_local_def by blast

lemma pixel_local_frame: "pixel_local body \<Longrightarrow> j < i \<or> i + 4 \<le> j \<Longrightarrow> body d i ! j = d ! j"
  unfolding pixel_local_def by blast

lemma pixel_local_agree:
  "pixel_local body \<Longrightarrow> length d1 = length d2 \<Longrightarrow>
   (\<forall>k. i \<le> k \<and> k < i + 4 \<longrightarrow> d1 ! k = d2 ! k) \<Longrightarrow> i \<le> k \<Longrightarrow> k < i + 4 \<Longrightarrow>
   body d1 i ! k = body d2 i ! k"
  unfolding pixel_local_def by blast

lemma pixel_loop_nth:
  assumes "pixel_local body"
  shows "length (pixel_loop body n d i) = length d
       \<and> (\<forall>j. j < i \<longrightarrow> pixel_loop body n d i ! j = d ! j)
       \<and> (\<forall>j. i \<le> j \<and> j < n \<longrightarrow> pixel_loop body n d i ! j = body d (i + 4 * ((j - i) div 4)) ! j)"
  using assms
proof (induction body n d i rule: pixel_loop.induct)
  case (1 body n d i)
  note loc = "1.prems"
  show ?case
  proof (cases "i < n")
    case False
    then show ?thesis by (auto simp: pixel_loop.simps[of body n d i])
  next
    case True
    have len: "length (body d i) = length d" using loc by (rule pixel_local_length)
    have frame: "\<And>j. j < i \<or> i + 4 \<le> j \<Longrightarrow> body d i ! j = d ! j"
      using loc by (rule pixel_local_frame)
    have ih: "length (pixel_loop body n (body d i) (i + 4)) = length (body d i)"
      "\<And>j. j < i + 4 \<Longrightarrow> pixel_loop body n (body d i) (i + 4) ! j = body d i ! j"
      "\<And>j. i + 4 \<le> j \<Longrightarrow> j < n \<Longrightarrow>
          pixel_loop body n (body d i) (i + 4) ! j
            = body (body d i) (i + 4 + 4 * ((j - (i + 4)) div 4)) ! j"
      using "1.IH"[OF True loc] by auto
    have unf: "pixel_loop body n d i = pixel_loop body n (body d i) (i + 4)"
      using True by (simp add: pixel_loop.simps[of body n d i])
    have A: "length (pixel_loop body n d i) = length d" using ih(1) len unf by simp
    have B: "pixel_loop body n d i ! j = d ! j" if "j < i" for j
      using ih(2)[of j] frame[of j] that unf by simp
    have C: "pixel_loop body n d i ! j = body d (i + 4 * ((j - i) div 4)) ! j"
      if "i \<le> j" "j < n" for j
    proof (cases "j < i + 4")
      case True
      then have "(j - i) div 4 = 0" using that by simp
      then show ?thesis using ih(2)[OF True] unf by simp
    next
      case False
      define p where "p = i + 4 + 4 * ((j - (i + 4)) div 4)"
      have p: "p = i + 4 * ((j - i) div 4)" using False by (simp add: p_def) presburger
      have pj: "p \<le> j" "j < p + 4" using False by (simp_all add: p_def)
      have agree: "\<forall>k. p \<le> k \<and> k < p + 4 \<longrightarrow> body d i ! k = d ! k"
        using frame by (simp add: p_def)
      have "body (body d i) p ! j = body d p ! j"
        using pixel_local_agree[OF loc len agree pj] .
      then show ?thesis using ih(3)[of j] False that unf by (simp add: p_def[symmetric] p)
    qed
    show ?thesis using A B C by blast
  qed
qed

subsection \<open>The warm filter\<close>

lemma lit_105: "lit (105 / 100) = Fin (4728779608739021 / 4503599627370496)"
  by code_simp

lemma lit_95: "lit (95 / 100) = Fin (4278419646001971 / 4503599627370496)"
  by code_simp

text \<open>The product of a byte and a double of magnitude at most 2.\<close>

lemma byte_mul_bound:
  assumes "\<bar>c\<bar> \<le> 2"
  shows "\<bar>of_nat (byte_val w) * c\<bar> < (2 ^ 53 :: rat)"
proof -
  have "(of_nat (byte_val w) :: rat) \<le> of_nat 255"
    using byte_val_le[of w] by (simp only: of_nat_le_iff)
  then have u: "(of_nat (byte_val w) :: rat) \<le> 255" by simp
  have "\<bar>of_nat (byte_val w) * c\<bar> = of_nat (byte_val w) * \<bar>c\<bar>"
    by (simp add: abs_mult)
  also have "\<dots> \<le> 255 * 2"
    using u assms by (rule mult_mono) simp_all
  finally show ?thesis by simp
qed

lemma js_mul_byte:
  assumes "\<bar>c\<bar> \<le> 2"
  shows "js_mul (byte_num w) (Fin c) = Fin (fl (of_nat (byte_val w) * c))"
  using byte_mul_bound[OF assms, of w] by (simp add: js_mul_def byte_num_def to_double_Fin)

lemma warm_red_value:
  "w \<le> ToUint8Clamp (Math_min (Fin 255) (js_mul (byte_num w) (lit (105 / 100))))"
proof -
  let ?c = "4728779608739021 / 4503599627370496 :: rat"
  let ?u = "of_nat (byte_val w) :: rat"
  have c: "1 \<le> ?c" "\<bar>?c\<bar> \<le> 2" by simp_all
  have u0: "0 \<le> ?u" by simp
  have "(of_nat (byte_val w) :: rat) \<le> of_nat 255"
    using byte_val_le[of w] by (simp only: of_nat_le_iff)
  then have u255: "?u \<le> 255" by simp
  have "?u * 1 \<le> ?u * ?c" using c(1) u0 by (rule mult_left_mono)
  then have "of_int (int (byte_val w)) \<le> ?u * ?c" by simp
  then have "of_int (int (byte_val w)) \<le> fl (?u * ?c)"
    using byte_mul_bound[OF c(2)] by (rule fl_ge_int[rotated])
  then have ge: "?u \<le> fl (?u * ?c)" by simp
  have m: "Math_min (Fin 255) (Fin (fl (?u * ?c))) = Fin (min 255 (fl (?u * ?c)))"
    by (simp add: Math_min_def min_def)
  have "?u \<le> min 255 (fl (?u * ?c))" using ge u255 by simp
  then have "w \<le> ToUint8Clamp (Fin (min 255 (fl (?u * ?c))))" by (rule ToUint8Clamp_ge)
  then show ?thesis
    by (simp only: lit_105 js_mul_byte[OF c(2)] m)
qed

lemma warm_blue_value:
  "ToUint8Clamp (Math_max (Fin 0) (js_mul (byte_num w) (lit (95 / 100)))) \<le> w"
proof -
  let ?c = "4278419646001971 / 4503599627370496 :: rat"
  let ?u = "of_nat (byte_val w) :: rat"
  have c: "?c \<le> 1" "\<bar>?c\<bar> \<le> 2" by simp_all
  have u0: "0 \<le> ?u" by simp
  have "?u * ?c \<le> ?u * 1" using c(1) u0 by (rule mult_left_mono)
  then have "?u * ?c \<le> of_int (int (byte_val w))" by simp
  then have "fl (?u * ?c) \<le> of_int (int (byte_val w))"
    using byte_mul_bound[OF c(2)] by (rule fl_le_int[rotated])
  then have le: "fl (?u * ?c) \<le> ?u" by simp
  have m: "Math_max (Fin 0) (Fin (fl (?u * ?c))) = Fin (max 0 (fl (?u * ?c)))"
    by (simp add: Math_max_def max_def)
  have "max 0 (fl (?u * ?c)) \<le> ?u" using le u0 by simp
  then have "ToUint8Clamp (Fin (max 0 (fl (?u * ?c)))) \<le> w" by (rule ToUint8Clamp_le)
  then show ?thesis
    by (simp only: lit_95 js_mul_byte[OF c(2)] m)
qed

lemma warm_body_local: "pixel_local warm_body"
  unfolding pixel_local_def
proof (intro conjI allI impI)
  fix d :: "u8 list" and i :: nat
  show "length (warm_body d i) = length d"
    by (simp add: warm_body_def warm_blue_def warm_red_def)
next
  fix d :: "u8 list" and i j :: nat
  assume "j < i \<or> i + 4 \<le> j"
  then show "warm_body d i ! j = d ! j"
    by (auto simp: warm_body_def warm_blue_def warm_red_def)
next
  fix d1 d2 :: "u8 list" and i k :: nat
  assume a: "length d1 = length d2 \<and> (\<forall>k. i \<le> k \<and> k < i + 4 \<longrightarrow> d1 ! k = d2 ! k)"
    and k: "i \<le> k \<and> k < i + 4"
  from a have e: "d1 ! i = d2 ! i" "d1 ! (i + 1) = d2 ! (i + 1)" "d1 ! (i + 2) = d2 ! (i + 2)"
    "d1 ! (i + 3) = d2 ! (i + 3)" "length d1 = length d2" by simp_all
  from k consider "k = i" | "k = i + 1" | "k = i + 2" | "k = i + 3" by linarith
  then show "warm_body d1 i ! k = warm_body d2 i ! k"
  proof cases
    case 1
    then show ?thesis
      using e by (simp add: warm_body_def warm_blue_def warm_red_def ta_set_def ta_get_def)
  next
    case 2
    then show ?thesis
      using e by (simp add: warm_body_def warm_blue_def warm_red_def ta_set_def ta_get_def)
  next
    case 3
    then show ?thesis
      using e by (simp add: warm_body_def warm_blue_def warm_red_def ta_set_def ta_get_def)
  next
    case 4
    then show ?thesis
      using e by (simp add: warm_body_def warm_blue_def warm_red_def ta_set_def ta_get_def)
  qed
qed

lemma warm_body_pixel:
  assumes "i + 3 < length d"
  shows "warm_body d i ! i = ToUint8Clamp (Math_min (Fin 255) (js_mul (byte_num (d ! i)) (lit (105 / 100))))"
    and "warm_body d i ! (i + 1) = d ! (i + 1)"
    and "warm_body d i ! (i + 2) = ToUint8Clamp (Math_max (Fin 0) (js_mul (byte_num (d ! (i + 2))) (lit (95 / 100))))"
    and "warm_body d i ! (i + 3) = d ! (i + 3)"
  using assms by (simp_all add: warm_body_def warm_blue_def warm_red_def)

lemma pixel_loop_at:
  assumes "pixel_local body" and "4 * p + 3 < length d" and "k < 4"
  shows "pixel_loop body (length d) d 0 ! (4 * p + k) = body d (4 * p) ! (4 * p + k)"
proof -
  have "\<forall>j. 0 \<le> j \<and> j < length d \<longrightarrow>
          pixel_loop body (length d) d 0 ! j = body d (0 + 4 * ((j - 0) div 4)) ! j"
    using pixel_loop_nth[OF assms(1), of "length d" d 0] by blast
  moreover have "4 * p + k < length d" using assms by simp
  moreover have "(4 * p + k) div 4 = p" using assms(3) by simp
  ultimately show ?thesis by simp
qed

lemma pixel_loop_length:
  "pixel_local body \<Longrightarrow> length (pixel_loop body n d i) = length d"
  using pixel_loop_nth[of body n d i] by blast

text \<open>
  C9. After one pass of the warm filter, for every pixel of the surface the red byte
  is at least what it was, the blue byte is at most what it was, the green and alpha
  bytes are what they were, and the surface has the same length.
\<close>

theorem warm_monotone:
  assumes "4 * p + 3 < length (surface c)"
  shows "surface c ! (4 * p) \<le> surface (warm c w h) ! (4 * p)
       \<and> surface (warm c w h) ! (4 * p + 2) \<le> surface c ! (4 * p + 2)
       \<and> surface (warm c w h) ! (4 * p + 1) = surface c ! (4 * p + 1)
       \<and> surface (warm c w h) ! (4 * p + 3) = surface c ! (4 * p + 3)
       \<and> length (surface (warm c w h)) = length (surface c)"
proof -
  let ?d = "surface c"
  let ?out = "pixel_loop warm_body (length ?d) ?d 0"
  have s: "surface (warm c w h) = ?out"
    by (simp add: warm_def getImageData_def putImageData_def Let_def)
  note at = pixel_loop_at[OF warm_body_local assms]
  note px = warm_body_pixel[of "4 * p" ?d, OF assms]
  have r: "?out ! (4 * p) = ToUint8Clamp (Math_min (Fin 255) (js_mul (byte_num (?d ! (4 * p))) (lit (105 / 100))))"
    using at[of 0] px(1) by simp
  have g: "?out ! (4 * p + 1) = ?d ! (4 * p + 1)"
    using at[of 1] px(2) by simp
  have b: "?out ! (4 * p + 2) = ToUint8Clamp (Math_max (Fin 0) (js_mul (byte_num (?d ! (4 * p + 2))) (lit (95 / 100))))"
    using at[of 2] px(3) by simp
  have a: "?out ! (4 * p + 3) = ?d ! (4 * p + 3)"
    using at[of 3] px(4) by simp
  have l: "length ?out = length ?d"
    by (rule pixel_loop_length[OF warm_body_local])
  have R: "?d ! (4 * p) \<le> ?out ! (4 * p)" unfolding r by (rule warm_red_value)
  have B: "?out ! (4 * p + 2) \<le> ?d ! (4 * p + 2)" unfolding b by (rule warm_blue_value)
  show ?thesis unfolding s using R B g a l by blast
qed

theorem warm_monotone_witness:
  "4 * 0 + 3 < length (surface (fresh_context [200, 100, 50, 255]))
   \<and> surface (warm (fresh_context [200, 100, 50, 255]) 1 1) = [210, 100, 48, 255]
   \<and> (200 :: u8) \<le> 210 \<and> (48 :: u8) \<le> 50"
proof -
  have h: "4 * 0 + 3 < length (surface (fresh_context [200, 100, 50, 255]))"
    by (simp add: fresh_context_def)
  have direct: "surface (warm (fresh_context [200, 100, 50, 255]) 1 1) = [210, 100, 48, 255]"
    by code_simp
  show ?thesis
    using h direct warm_monotone [OF h, of 1 1] by simp
qed

subsection \<open>The grayscale filter\<close>

lemma lit_2126: "lit (2126 / 10000) = Fin (1914930561557935 / 9007199254740992)"
  by code_simp

lemma lit_7152: "lit (7152 / 10000) = Fin (6441948906990757 / 9007199254740992)"
  by code_simp

lemma lit_722: "lit (722 / 10000) = Fin (5202558289538397 / 72057594037927936)"
  by code_simp

lemma fl_err_256:
  assumes "\<bar>x\<bar> < 256"
  shows "\<bar>fl x - x\<bar> \<le> 1 / 70368744177664" and "to_double x = Fin (fl x)"
proof -
  have "\<bar>x\<bar> < pow2 (7 + 1)" using assms by (simp add: pow2_def)
  then have "\<bar>fl x - x\<bar> \<le> pow2 (7 - 53)" by (rule fl_err_bound) simp
  then show "\<bar>fl x - x\<bar> \<le> 1 / 70368744177664" by (simp add: pow2_def)
  have "\<bar>x\<bar> < 2 ^ 53" using assms by simp
  then show "to_double x = Fin (fl x)" by (rule to_double_Fin)
qed

lemma byte_rat_bounds: "0 \<le> (of_nat (byte_val w) :: rat)" "(of_nat (byte_val w) :: rat) \<le> 255"
proof -
  show "0 \<le> (of_nat (byte_val w) :: rat)" by simp
  have "(of_nat (byte_val w) :: rat) \<le> of_nat 255"
    using byte_val_le[of w] by (simp only: of_nat_le_iff)
  then show "(of_nat (byte_val w) :: rat) \<le> 255" by simp
qed

lemma js_mul_Fin: "js_mul (Fin a) (Fin b) = to_double (a * b)"
  by (simp add: js_mul_def)

lemma js_add_Fin: "js_add (Fin a) (Fin b) = to_double (a + b)"
  by (simp add: js_add_def)

lemma luma_value:
  "\<exists>l. luma (byte_num r) (byte_num g) (byte_num b) = Fin l
       \<and> \<bar>l - luma_exact r g b\<bar> \<le> 1 / 20000"
proof -
  let ?c1 = "1914930561557935 / 9007199254740992 :: rat"
  let ?c2 = "6441948906990757 / 9007199254740992 :: rat"
  let ?c3 = "5202558289538397 / 72057594037927936 :: rat"
  let ?e = "1 / 70368744177664 :: rat"
  define R G B :: rat where "R = of_nat (byte_val r)" and "G = of_nat (byte_val g)"
    and "B = of_nat (byte_val b)"
  have bd: "0 \<le> R" "R \<le> 255" "0 \<le> G" "G \<le> 255" "0 \<le> B" "B \<le> 255"
    using byte_rat_bounds by (simp_all add: R_def G_def B_def)
  define p1 p2 p3 where "p1 = fl (?c1 * R)" and "p2 = fl (?c2 * G)" and "p3 = fl (?c3 * B)"
  define s where "s = fl (p1 + p2)"
  define l where "l = fl (s + p3)"
  have a1: "\<bar>?c1 * R\<bar> < 256" using bd by linarith
  have a2: "\<bar>?c2 * G\<bar> < 256" using bd by linarith
  have a3: "\<bar>?c3 * B\<bar> < 256" using bd by linarith
  have e1: "\<bar>p1 - ?c1 * R\<bar> \<le> ?e" unfolding p1_def by (rule fl_err_256(1)[OF a1])
  have e2: "\<bar>p2 - ?c2 * G\<bar> \<le> ?e" unfolding p2_def by (rule fl_err_256(1)[OF a2])
  have e3: "\<bar>p3 - ?c3 * B\<bar> \<le> ?e" unfolding p3_def by (rule fl_err_256(1)[OF a3])
  have a4: "\<bar>p1 + p2\<bar> < 256" using e1 e2 bd by linarith
  have e4: "\<bar>s - (p1 + p2)\<bar> \<le> ?e" unfolding s_def by (rule fl_err_256(1)[OF a4])
  have a5: "\<bar>s + p3\<bar> < 256" using e1 e2 e3 e4 bd by linarith
  have e5: "\<bar>l - (s + p3)\<bar> \<le> ?e" unfolding l_def by (rule fl_err_256(1)[OF a5])
  have m1: "js_mul (lit (2126 / 10000)) (byte_num r) = Fin p1"
    unfolding lit_2126 byte_num_def js_mul_Fin p1_def R_def [symmetric]
    by (rule fl_err_256(2)[OF a1])
  have m2: "js_mul (lit (7152 / 10000)) (byte_num g) = Fin p2"
    unfolding lit_7152 byte_num_def js_mul_Fin p2_def G_def [symmetric]
    by (rule fl_err_256(2)[OF a2])
  have m3: "js_mul (lit (722 / 10000)) (byte_num b) = Fin p3"
    unfolding lit_722 byte_num_def js_mul_Fin p3_def B_def [symmetric]
    by (rule fl_err_256(2)[OF a3])
  have s1: "js_add (Fin p1) (Fin p2) = Fin s"
    unfolding js_add_Fin s_def by (rule fl_err_256(2)[OF a4])
  have s2: "js_add (Fin s) (Fin p3) = Fin l"
    unfolding js_add_Fin l_def by (rule fl_err_256(2)[OF a5])
  have L: "luma (byte_num r) (byte_num g) (byte_num b) = Fin l"
    by (simp only: luma_def m1 m2 m3 s1 s2)
  have Y: "luma_exact r g b = 2126 / 10000 * R + 7152 / 10000 * G + 722 / 10000 * B"
    by (simp add: luma_exact_def R_def G_def B_def)
  have "\<bar>l - luma_exact r g b\<bar> \<le> 1 / 20000"
    unfolding Y using e1 e2 e3 e4 e5 bd by linarith
  then show ?thesis using L by blast
qed

lemma nearest_round:
  assumes "\<bar>of_int n - Y\<bar> \<le> 1 / 2" and "frac Y \<noteq> 1 / 2"
  shows "round Y = n"
proof -
  have "Y \<noteq> of_int n + 1 / 2"
  proof
    assume "Y = of_int n + 1 / 2"
    then have "frac Y = 1 / 2" by (simp add: frac_unique_iff)
    with assms(2) show False by simp
  qed
  with assms(1) have "of_int n \<le> Y + 1 / 2" "Y + 1 / 2 < of_int n + 1" by linarith+
  then have "\<lfloor>Y + 1 / 2\<rfloor> = n" by (rule floor_unique)
  then show ?thesis by (simp add: round_def)
qed

lemma clamp_nearest:
  assumes "\<bar>l - Y\<bar> \<le> 1 / 20000" and "Y = of_nat K / 10000" and "K \<le> 2550000"
  shows "\<bar>of_nat (byte_val (ToUint8Clamp (Fin l))) - Y\<bar> \<le> 1 / 2"
proof -
  have Y0: "0 \<le> Y" using assms(2) by simp
  have "(of_nat K :: rat) \<le> of_nat 2550000" using assms(3) by (simp only: of_nat_le_iff)
  then have Y255: "Y \<le> 255" using assms(2) by simp
  consider "l \<le> 0" | "255 \<le> l" | "0 < l" "l < 255" by linarith
  then show ?thesis
  proof cases
    case 1
    then have "byte_val (ToUint8Clamp (Fin l)) = 0" by (simp add: byte_val_clamp)
    then show ?thesis using 1 assms(1) Y0 by simp
  next
    case 2
    then have "byte_val (ToUint8Clamp (Fin l)) = 255" by (simp add: byte_val_clamp)
    then show ?thesis using 2 assms(1) Y255 by simp
  next
    case 3
    define n where "n = rne l"
    have n0: "0 \<le> n" unfolding n_def using rne_ge[of 0 l] 3 by simp
    have v: "byte_val (ToUint8Clamp (Fin l)) = nat n" using 3 by (simp add: byte_val_clamp n_def)
    have "\<bar>of_int n - l\<bar> \<le> 1 / 2" unfolding n_def by (rule rne_err)
    then have d: "\<bar>of_int n - Y\<bar> \<le> 1 / 2 + 1 / 20000" using assms(1) by linarith
    have K: "(of_nat K :: rat) = 10000 * Y" using assms(2) by simp
    have eq: "(of_int (10000 * n - int K) :: rat) = 10000 * of_int n - 10000 * Y"
      by (simp add: K)
    have "\<bar>10000 * of_int n - 10000 * Y\<bar> < (5001 :: rat)" using d by linarith
    then have "\<bar>(of_int (10000 * n - int K) :: rat)\<bar> < of_int 5001"
      unfolding eq by simp
    then have "(of_int \<bar>10000 * n - int K\<bar> :: rat) < of_int 5001" by simp
    then have "\<bar>10000 * n - int K\<bar> < 5001" by (simp only: of_int_less_iff)
    then have "\<bar>10000 * n - int K\<bar> \<le> 5000" by simp
    then have "(of_int \<bar>10000 * n - int K\<bar> :: rat) \<le> of_int 5000" by (simp only: of_int_le_iff)
    then have "\<bar>(of_int (10000 * n - int K) :: rat)\<bar> \<le> 5000" by simp
    then have "\<bar>10000 * of_int n - 10000 * Y\<bar> \<le> (5000 :: rat)" unfolding eq .
    then have "\<bar>of_int n - Y\<bar> \<le> 1 / 2" by linarith
    moreover have "(of_nat (nat n) :: rat) = of_int n" using n0 by simp
    ultimately show ?thesis by (simp add: v)
  qed
qed

lemma luma_exact_frac:
  "\<exists>K. luma_exact r g b = of_nat K / 10000 \<and> K \<le> 2550000"
proof -
  let ?K = "2126 * byte_val r + 7152 * byte_val g + 722 * byte_val b"
  have "luma_exact r g b = of_nat ?K / 10000" by (simp add: luma_exact_def)
  moreover have "?K \<le> 2550000" using byte_val_le[of r] byte_val_le[of g] byte_val_le[of b] by simp
  ultimately show ?thesis by blast
qed

text \<open>The byte a grayscale pass stores for a pixel.\<close>

lemma gray_value:
  "\<bar>of_nat (byte_val (ToUint8Clamp (luma (byte_num r) (byte_num g) (byte_num b)))) - luma_exact r g b\<bar>
     \<le> 1 / 2"
proof -
  obtain l where l: "luma (byte_num r) (byte_num g) (byte_num b) = Fin l"
    "\<bar>l - luma_exact r g b\<bar> \<le> 1 / 20000"
    using luma_value by blast
  obtain K where K: "luma_exact r g b = of_nat K / 10000" "K \<le> 2550000"
    using luma_exact_frac by blast
  show ?thesis unfolding l(1) by (rule clamp_nearest[OF l(2) K])
qed

lemma gray_body_local: "pixel_local gray_body"
  unfolding pixel_local_def
proof (intro conjI allI impI)
  fix d :: "u8 list" and i :: nat
  show "length (gray_body d i) = length d"
    by (simp add: gray_body_def Let_def)
next
  fix d :: "u8 list" and i j :: nat
  assume "j < i \<or> i + 4 \<le> j"
  then show "gray_body d i ! j = d ! j"
    by (auto simp: gray_body_def Let_def)
next
  fix d1 d2 :: "u8 list" and i k :: nat
  assume a: "length d1 = length d2 \<and> (\<forall>k. i \<le> k \<and> k < i + 4 \<longrightarrow> d1 ! k = d2 ! k)"
    and k: "i \<le> k \<and> k < i + 4"
  from a have e: "d1 ! i = d2 ! i" "d1 ! (i + 1) = d2 ! (i + 1)" "d1 ! (i + 2) = d2 ! (i + 2)"
    "d1 ! (i + 3) = d2 ! (i + 3)" "length d1 = length d2" by simp_all
  then have l: "luma (ta_get d1 i) (ta_get d1 (i + 1)) (ta_get d1 (i + 2))
              = luma (ta_get d2 i) (ta_get d2 (i + 1)) (ta_get d2 (i + 2))"
    by (simp add: ta_get_def)
  from k consider "k = i" | "k = i + 1" | "k = i + 2" | "k = i + 3" by linarith
  then show "gray_body d1 i ! k = gray_body d2 i ! k"
  proof cases
    case 1
    then show ?thesis using e l by (simp add: gray_body_def Let_def ta_set_def)
  next
    case 2
    then show ?thesis using e l by (simp add: gray_body_def Let_def ta_set_def)
  next
    case 3
    then show ?thesis using e l by (simp add: gray_body_def Let_def ta_set_def)
  next
    case 4
    then show ?thesis using e l by (simp add: gray_body_def Let_def ta_set_def)
  qed
qed

lemma gray_body_pixel:
  assumes "i + 3 < length d"
  shows "gray_body d i ! i
           = ToUint8Clamp (luma (byte_num (d ! i)) (byte_num (d ! (i + 1))) (byte_num (d ! (i + 2))))"
    and "gray_body d i ! (i + 1) = gray_body d i ! i"
    and "gray_body d i ! (i + 2) = gray_body d i ! i"
    and "gray_body d i ! (i + 3) = d ! (i + 3)"
proof -
  let ?l = "luma (byte_num (d ! i)) (byte_num (d ! (i + 1))) (byte_num (d ! (i + 2)))"
  have b: "gray_body d i = ta_set (ta_set (ta_set d (i + 2) ?l) (i + 1) ?l) i ?l"
    using assms by (simp add: gray_body_def Let_def)
  show "gray_body d i ! i = ToUint8Clamp ?l" unfolding b using assms by simp
  then show "gray_body d i ! (i + 1) = gray_body d i ! i" unfolding b using assms by simp
  show "gray_body d i ! (i + 2) = gray_body d i ! i" unfolding b using assms by simp
  show "gray_body d i ! (i + 3) = d ! (i + 3)" unfolding b by simp
qed

text \<open>
  C2 as stated fails. For the pixel (0, 14, 76) the luma is exactly 15.5, which
  rounds to 16, but the sum computed in doubles is just below 15.5 and the byte stored
  is 15.
\<close>

theorem grayscale_round_counterexample:
  "surface (grayscale (fresh_context [0, 14, 76, 255]) 1 1) = [15, 15, 15, 255]
   \<and> round (luma_exact 0 14 76) = 16"
  by code_simp

text \<open>
  C2, amended. After one grayscale pass, every pixel of the surface has the same
  byte in its three colour channels; that byte is an integer nearest to the luma
  \<open>0.2126 R + 0.7152 G + 0.0722 B\<close> of the pixel before the pass (it differs
  from it by at most 1/2), and it is the rounded luma whenever the luma is not
  exactly halfway between two integers. The alpha byte and the length of the surface
  are unchanged.
\<close>

theorem grayscale_nearest:
  assumes "4 * p + 3 < length (surface c)"
  shows "surface (grayscale c w h) ! (4 * p + 1) = surface (grayscale c w h) ! (4 * p)
       \<and> surface (grayscale c w h) ! (4 * p + 2) = surface (grayscale c w h) ! (4 * p)
       \<and> \<bar>of_nat (byte_val (surface (grayscale c w h) ! (4 * p)))
            - luma_exact (surface c ! (4 * p)) (surface c ! (4 * p + 1)) (surface c ! (4 * p + 2))\<bar>
           \<le> 1 / 2
       \<and> (frac (luma_exact (surface c ! (4 * p)) (surface c ! (4 * p + 1)) (surface c ! (4 * p + 2)))
             \<noteq> 1 / 2 \<longrightarrow>
           round (luma_exact (surface c ! (4 * p)) (surface c ! (4 * p + 1)) (surface c ! (4 * p + 2)))
             = int (byte_val (surface (grayscale c w h) ! (4 * p))))
       \<and> surface (grayscale c w h) ! (4 * p + 3) = surface c ! (4 * p + 3)
       \<and> length (surface (grayscale c w h)) = length (surface c)"
proof -
  let ?d = "surface c"
  let ?out = "pixel_loop gray_body (length ?d) ?d 0"
  let ?Y = "luma_exact (?d ! (4 * p)) (?d ! (4 * p + 1)) (?d ! (4 * p + 2))"
  have s: "surface (grayscale c w h) = ?out"
    by (simp add: grayscale_def getImageData_def putImageData_def Let_def)
  note at = pixel_loop_at[OF gray_body_local assms]
  note px = gray_body_pixel[of "4 * p" ?d, OF assms]
  let ?bd = "gray_body ?d (4 * p)"
  have o0: "?out ! (4 * p) = ?bd ! (4 * p)" using at[of 0] by simp
  have o1: "?out ! (4 * p + 1) = ?bd ! (4 * p + 1)" using at[of 1] by simp
  have o2: "?out ! (4 * p + 2) = ?bd ! (4 * p + 2)" using at[of 2] by simp
  have o3: "?out ! (4 * p + 3) = ?bd ! (4 * p + 3)" using at[of 3] by simp
  have r: "?out ! (4 * p) = ToUint8Clamp (luma (byte_num (?d ! (4 * p))) (byte_num (?d ! (4 * p + 1)))
                                               (byte_num (?d ! (4 * p + 2))))"
    unfolding o0 by (rule px(1))
  have g: "?out ! (4 * p + 1) = ?out ! (4 * p)"
    unfolding o0 o1 by (rule px(2))
  have b: "?out ! (4 * p + 2) = ?out ! (4 * p)"
    unfolding o0 o2 by (rule px(3))
  have a: "?out ! (4 * p + 3) = ?d ! (4 * p + 3)"
    unfolding o3 by (rule px(4))
  have l: "length ?out = length ?d"
    by (rule pixel_loop_length[OF gray_body_local])
  have near: "\<bar>of_nat (byte_val (?out ! (4 * p))) - ?Y\<bar> \<le> 1 / 2"
    unfolding r by (rule gray_value)
  have rnd: "round ?Y = int (byte_val (?out ! (4 * p)))" if "frac ?Y \<noteq> 1 / 2"
  proof -
    have "(of_int (int (byte_val (?out ! (4 * p)))) :: rat) = of_nat (byte_val (?out ! (4 * p)))"
      by (rule of_int_of_nat_eq)
    then have "\<bar>of_int (int (byte_val (?out ! (4 * p)))) - ?Y\<bar> \<le> 1 / 2"
      using near by (simp only:)
    then show ?thesis using that by (rule nearest_round)
  qed
  show ?thesis
    unfolding s
  proof (intro conjI impI)
    show "?out ! (4 * p + 1) = ?out ! (4 * p)" by (rule g)
    show "?out ! (4 * p + 2) = ?out ! (4 * p)" by (rule b)
    show "\<bar>of_nat (byte_val (?out ! (4 * p))) - ?Y\<bar> \<le> 1 / 2" by (rule near)
    show "round ?Y = int (byte_val (?out ! (4 * p)))" if "frac ?Y \<noteq> 1 / 2"
      using that by (rule rnd)
    show "?out ! (4 * p + 3) = ?d ! (4 * p + 3)" by (rule a)
    show "length ?out = length ?d" by (rule l)
  qed
qed

theorem grayscale_nearest_witness:
  "4 * 0 + 3 < length (surface (fresh_context [255, 0, 0, 255]))
   \<and> surface (grayscale (fresh_context [255, 0, 0, 255]) 1 1) = [54, 54, 54, 255]
   \<and> round (luma_exact 255 0 0) = 54"
proof -
  have h: "4 * 0 + 3 < length (surface (fresh_context [255, 0, 0, 255]))"
    by (simp add: fresh_context_def)
  have direct: "surface (grayscale (fresh_context [255, 0, 0, 255]) 1 1) = [54, 54, 54, 255]
      \<and> round (luma_exact 255 0 0) = 54"
    by code_simp
  show ?thesis
    using h direct grayscale_nearest [OF h, of 1 1] by blast
qed

subsection \<open>The lookup table\<close>
































end
